theory Spec2Isabelle
  imports Main
begin

section \<open>Shared data model\<close>

text \<open>
  The types of \<^verbatim>\<open>shared/lumi_doc.ts\<close> are declared outside the sources at hand; they
  are modelled from the data model of the specification and from the way the sources and
  their tests build and read the values.
\<close>

text \<open>Modelled from the spec: the metadata object of \<^verbatim>\<open>lumi_doc.ts\<close>, a finite map
  from string keys to string values. The spread \<^verbatim>\<open>{...a, ...b}\<close> is \<open>a ++ b\<close> (the
  keys of \<open>b\<close> win).\<close>

type_synonym Metadata = "string \<rightharpoonup> string"

text \<open>Modelled from the spec: the \<^verbatim>\<open>Position\<close> of \<^verbatim>\<open>lumi_doc.ts\<close>, a start and an
  end character offset. The offsets are JavaScript numbers that hold integers, modelled
  as \<^typ>\<open>int\<close>, so that negative and out-of-range offsets stay expressible.\<close>

record Position =
  startIndex :: int
  endIndex :: int

text \<open>Modelled from the spec: the enumeration \<^verbatim>\<open>InnerTagName\<close> of \<^verbatim>\<open>lumi_doc.ts\<close>,
  with the tag kinds that the specification lists and the sources use.\<close>

datatype InnerTagName =
  BOLD | ITALIC | UNDERLINE | A | CODE | MATH | MATH_DISPLAY
  | REFERENCE | SPAN_REFERENCE | FOOTNOTE | CONCEPT

text \<open>Modelled from the spec: the \<^verbatim>\<open>InnerTag\<close> of \<^verbatim>\<open>lumi_doc.ts\<close>: a tag kind, a
  position relative to the parent, metadata and optional child tags; \<open>children = None\<close>
  is the absent (\<^verbatim>\<open>undefined\<close>) field.\<close>

datatype InnerTag =
  InnerTag (tagName: InnerTagName) (position: Position) (metadata: Metadata)
           (children: "InnerTag list option")

text \<open>Modelled from the spec: the \<^verbatim>\<open>LumiSpan\<close>, \<^verbatim>\<open>LumiReference\<close> and
  \<^verbatim>\<open>LumiFootnote\<close> of \<^verbatim>\<open>lumi_doc.ts\<close>: a span has an identifier, a text and inner
  tags; a reference and a footnote have an identifier and a span.\<close>

record LumiSpan =
  id_span :: string
  text_span :: string
  innerTags :: "InnerTag list"

record LumiReference =
  id_reference :: string
  span_reference :: LumiSpan

record LumiFootnote =
  id_footnote :: string
  span_footnote :: LumiSpan

text \<open>Modelled from the spec: the \<^verbatim>\<open>Highlight\<close> of \<^verbatim>\<open>lumi_doc.ts\<close>: a colour, the
  target span id, an optional position (absent for the whole span) and optional
  metadata.\<close>

record Highlight =
  color :: string
  spanId :: string
  position :: "Position option"
  metadata :: "Metadata option"

section \<open>Highlight store (\<^verbatim>\<open>shared/highlight_manager.ts\<close>)\<close>

record HighlightManagerBase =
  highlightedSpans :: "string \<rightharpoonup> Highlight list"
  highlightedImages :: "string set"

definition newHighlightManager :: HighlightManagerBase where
  "newHighlightManager = \<lparr>highlightedSpans = Map.empty, highlightedImages = {}\<rparr>"

text \<open>One iteration of the loop in \<^verbatim>\<open>addHighlights\<close>:
  \<^verbatim>\<open>existing = get(spanId) || []; set(spanId, [...existing, highlight])\<close>.\<close>

definition addHighlight :: "Highlight \<Rightarrow> HighlightManagerBase \<Rightarrow> HighlightManagerBase" where
  "addHighlight h m =
     (let existing = (case highlightedSpans m (spanId h) of None \<Rightarrow> [] | Some hs \<Rightarrow> hs)
      in m\<lparr>highlightedSpans := (highlightedSpans m)(spanId h \<mapsto> existing @ [h])\<rparr>)"

definition addHighlights :: "Highlight list \<Rightarrow> HighlightManagerBase \<Rightarrow> HighlightManagerBase" where
  "addHighlights hs m = fold addHighlight hs m"

definition getSpanHighlights :: "HighlightManagerBase \<Rightarrow> string \<Rightarrow> Highlight list" where
  "getSpanHighlights m sid = (case highlightedSpans m sid of None \<Rightarrow> [] | Some hs \<Rightarrow> hs)"

definition removeHighlights :: "string list \<Rightarrow> HighlightManagerBase \<Rightarrow> HighlightManagerBase" where
  "removeHighlights sids m =
     fold (\<lambda>sid m'. m'\<lparr>highlightedSpans := (highlightedSpans m')(sid := None)\<rparr>) sids m"

definition addImageHighlight :: "string \<Rightarrow> HighlightManagerBase \<Rightarrow> HighlightManagerBase" where
  "addImageHighlight p m = m\<lparr>highlightedImages := insert p (highlightedImages m)\<rparr>"

definition removeImageHighlight :: "string \<Rightarrow> HighlightManagerBase \<Rightarrow> HighlightManagerBase" where
  "removeImageHighlight p m = m\<lparr>highlightedImages := highlightedImages m - {p}\<rparr>"

definition isImageHighlighted :: "HighlightManagerBase \<Rightarrow> string \<Rightarrow> bool" where
  "isImageHighlighted m p \<longleftrightarrow> p \<in> highlightedImages m"

definition clearHighlights :: "HighlightManagerBase \<Rightarrow> HighlightManagerBase" where
  "clearHighlights m = m\<lparr>highlightedSpans := Map.empty, highlightedImages := {}\<rparr>"

section \<open>Tag flattener (\<^verbatim>\<open>components/lumi_span/lumi_span_utils.ts\<close>)\<close>

text \<open>
  The loop over \<^verbatim>\<open>tags\<close> is the recursion on the list; the recursive call on
  \<^verbatim>\<open>tag.children\<close> is made only when the field is present and non-empty. The caller's
  default \<^verbatim>\<open>parentOffset = 0\<close> is passed explicitly.
\<close>

fun flattenTags :: "InnerTag list \<Rightarrow> int \<Rightarrow> InnerTag list" where
  "flattenTags [] parentOffset = []"
| "flattenTags (InnerTag name pos md ch # tags) parentOffset =
     (let absolutePosition =
            \<lparr>startIndex = startIndex pos + parentOffset,
             endIndex = endIndex pos + parentOffset\<rparr>
      in InnerTag name absolutePosition md None
         # (case ch of
              None \<Rightarrow> []
            | Some cs \<Rightarrow>
                if length cs > 0 then flattenTags cs (startIndex absolutePosition) else [])
         @ flattenTags tags parentOffset)"

subsection \<open>Addressing the tags of a forest by paths\<close>

definition kids :: "InnerTag \<Rightarrow> InnerTag list" where
  "kids t = (case children t of None \<Rightarrow> [] | Some cs \<Rightarrow> cs)"

text \<open>The tag reached by a path of child indices, the first index into the top level.\<close>

fun tagAt :: "InnerTag list \<Rightarrow> nat list \<Rightarrow> InnerTag option" where
  "tagAt ts [] = None"
| "tagAt ts [i] = (if i < length ts then Some (ts ! i) else None)"
| "tagAt ts (i # j # p) = (if i < length ts then tagAt (kids (ts ! i)) (j # p) else None)"

text \<open>The sum of the relative start offsets of the proper ancestors of the tag at a path.\<close>

fun ancestorOffset :: "InnerTag list \<Rightarrow> nat list \<Rightarrow> int" where
  "ancestorOffset ts [] = 0"
| "ancestorOffset ts [i] = 0"
| "ancestorOffset ts (i # j # p) =
     (if i < length ts
      then startIndex (InnerTag.position (ts ! i)) + ancestorOffset (kids (ts ! i)) (j # p)
      else 0)"

text \<open>The paths of a forest in depth-first pre-order: a tag, then the paths of its subtree,
  then its later siblings. \<open>k\<close> is the index of the first tag of the list.\<close>

fun pathsFrom :: "nat \<Rightarrow> InnerTag list \<Rightarrow> nat list list" where
  "pathsFrom k [] = []"
| "pathsFrom k (InnerTag name pos md ch # ts) =
     [k] # map ((#) k) (case ch of None \<Rightarrow> [] | Some cs \<Rightarrow> pathsFrom 0 cs)
     @ pathsFrom (Suc k) ts"

text \<open>What the flattener is to emit for the tag at a path: the tag with both offsets shifted
  by the sum of its ancestors' relative start offsets and with no children.\<close>

definition shiftTag :: "int \<Rightarrow> InnerTag \<Rightarrow> InnerTag" where
  "shiftTag d t =
     InnerTag (tagName t)
       \<lparr>startIndex = startIndex (InnerTag.position t) + d,
        endIndex = endIndex (InnerTag.position t) + d\<rparr>
       (InnerTag.metadata t) None"

definition emitAt :: "InnerTag list \<Rightarrow> nat list \<Rightarrow> InnerTag option" where
  "emitAt ts p = map_option (shiftTag (ancestorOffset ts p)) (tagAt ts p)"

text \<open>The reading of claim C4 as it is worded: every tag is shifted by the sum of the
  \<^emph>\<open>absolute\<close> start offsets of all its ancestors. \<open>acc\<close> is that sum for the tags of
  the list.\<close>

fun claimedFlatten :: "InnerTag list \<Rightarrow> int \<Rightarrow> InnerTag list" where
  "claimedFlatten [] acc = []"
| "claimedFlatten (InnerTag name pos md ch # tags) acc =
     InnerTag name \<lparr>startIndex = startIndex pos + acc, endIndex = endIndex pos + acc\<rparr> md None
     # (case ch of
          None \<Rightarrow> []
        | Some cs \<Rightarrow> claimedFlatten cs (acc + (startIndex pos + acc)))
     @ claimedFlatten tags acc"

text \<open>The three-level fixture of \<^verbatim>\<open>lumi_span_utils.test.ts\<close>.\<close>

definition nestedFixture :: "InnerTag list" where
  "nestedFixture =
     [InnerTag BOLD \<lparr>startIndex = 10, endIndex = 50\<rparr> Map.empty
        (Some [InnerTag ITALIC \<lparr>startIndex = 5, endIndex = 25\<rparr> Map.empty
                 (Some [InnerTag UNDERLINE \<lparr>startIndex = 2, endIndex = 8\<rparr> Map.empty None]),
               InnerTag A \<lparr>startIndex = 30, endIndex = 35\<rparr> Map.empty None])]"

section \<open>Selection resolver (\<^verbatim>\<open>shared/selection_utils.ts\<close>)\<close>

subsection \<open>The rendered tree\<close>

text \<open>
  The rendered DOM is a forest of nodes: the child nodes of the shadow root that hosts the
  span-rendering units. A node is referred to by its path of child indices from the root
  of the forest, so that two references are the same node exactly when the paths are
  equal. The shadow root is not an element: \<^verbatim>\<open>parentElement\<close> of a top-level node is
  \<^verbatim>\<open>null\<close>. Every element of the model is an \<^verbatim>\<open>HTMLElement\<close>.
\<close>

datatype DomNode =
  TextNode string
| Element string string "string list" "DomNode list"

fun isElement :: "DomNode \<Rightarrow> bool" where
  "isElement (TextNode s) = False"
| "isElement (Element tag ident classes cs) = True"

fun tagName_node :: "DomNode \<Rightarrow> string" where
  "tagName_node (TextNode s) = []"
| "tagName_node (Element tag ident classes cs) = tag"

fun id_node :: "DomNode \<Rightarrow> string" where
  "id_node (TextNode s) = []"
| "id_node (Element tag ident classes cs) = ident"

fun classList :: "DomNode \<Rightarrow> string list" where
  "classList (TextNode s) = []"
| "classList (Element tag ident classes cs) = classes"

fun childNodes :: "DomNode \<Rightarrow> DomNode list" where
  "childNodes (TextNode s) = []"
| "childNodes (Element tag ident classes cs) = cs"

fun textContent :: "DomNode \<Rightarrow> string" where
  "textContent (TextNode s) = s"
| "textContent (Element tag ident classes cs) = concat (map textContent cs)"

fun nodeAt :: "DomNode list \<Rightarrow> nat list \<Rightarrow> DomNode option" where
  "nodeAt ns [] = None"
| "nodeAt ns [i] = (if i < length ns then Some (ns ! i) else None)"
| "nodeAt ns (i # j # p) = (if i < length ns then nodeAt (childNodes (ns ! i)) (j # p) else None)"

definition parentElement :: "DomNode list \<Rightarrow> nat list \<Rightarrow> nat list option" where
  "parentElement tree p =
     (if p = [] then None
      else (case nodeAt tree (butlast p) of
              None \<Rightarrow> None
            | Some n \<Rightarrow> if isElement n then Some (butlast p) else None))"

text \<open>\<^verbatim>\<open>element.children\<close>: the references of the element children, in order.\<close>

definition children_node :: "DomNode list \<Rightarrow> nat list \<Rightarrow> nat list list" where
  "children_node tree p =
     (case nodeAt tree p of
        None \<Rightarrow> []
      | Some n \<Rightarrow> map (\<lambda>k. p @ [k]) (filter (\<lambda>k. isElement (childNodes n ! k)) [0..<length (childNodes n)]))"

text \<open>\<^verbatim>\<open>Array.prototype.indexOf\<close> (\<open>-1\<close> when absent) and \<^verbatim>\<open>slice(0, end)\<close>
  (a negative \<open>end\<close> counts from the end of the array).\<close>

fun indexOf :: "'a list \<Rightarrow> 'a \<Rightarrow> int" where
  "indexOf [] x = -1"
| "indexOf (y # ys) x = (if y = x then 0 else (let r = indexOf ys x in if r < 0 then -1 else r + 1))"

definition slice0 :: "'a list \<Rightarrow> int \<Rightarrow> 'a list" where
  "slice0 xs e = (if e < 0 then take (nat (int (length xs) + e)) xs else take (nat e) xs)"

text \<open>\<^verbatim>\<open>String.prototype.toLowerCase\<close> on the ASCII letters of a tag name, and
  \<^verbatim>\<open>String.prototype.trim\<close> with the white space of the 8-bit character set.\<close>

definition toLowerCase_char :: "char \<Rightarrow> char" where
  "toLowerCase_char c =
     (if 65 \<le> (of_char c :: nat) \<and> (of_char c :: nat) \<le> 90
      then char_of ((of_char c :: nat) + 32) else c)"

definition toLowerCase :: "string \<Rightarrow> string" where
  "toLowerCase s = map toLowerCase_char s"

definition isWhiteSpace :: "char \<Rightarrow> bool" where
  "isWhiteSpace c \<longleftrightarrow> (of_char c :: nat) \<in> {9, 10, 11, 12, 13, 32, 160}"

definition trim :: "string \<Rightarrow> string" where
  "trim s = rev (dropWhile isWhiteSpace (rev (dropWhile isWhiteSpace s)))"

subsection \<open>\<^verbatim>\<open>findParent\<close>\<close>

function findParent :: "DomNode list \<Rightarrow> (DomNode \<Rightarrow> bool) \<Rightarrow> nat list \<Rightarrow> nat list option" where
  "findParent tree condition current =
     (case nodeAt tree current of
        None \<Rightarrow> None
      | Some n \<Rightarrow>
          if isElement n \<and> condition n then Some current
          else (case parentElement tree current of
                  None \<Rightarrow> None
                | Some q \<Rightarrow> findParent tree condition q))"
  by pat_completeness auto
termination
  by (relation "measure (\<lambda>(tree, condition, current). length current)")
     (auto simp: parentElement_def split: if_splits option.splits)

subsection \<open>\<^verbatim>\<open>getOffsetInLumiSpan\<close>\<close>

text \<open>The two class names are constants of \<^verbatim>\<open>shared/constants.ts\<close>, declared outside
  the sources at hand; they are parameters of the functions that use them.\<close>

record Constants =
  CITATION_CLASSNAME :: string
  FOOTNOTE_CLASSNAME :: string

definition isInlineTag :: "Constants \<Rightarrow> DomNode list \<Rightarrow> nat list \<Rightarrow> bool" where
  "isInlineTag k tree p =
     (case nodeAt tree p of
        None \<Rightarrow> False
      | Some n \<Rightarrow> CITATION_CLASSNAME k \<in> set (classList n) \<or> FOOTNOTE_CLASSNAME k \<in> set (classList n))"

definition getOffsetInLumiSpan :: "Constants \<Rightarrow> DomNode list \<Rightarrow> nat list \<Rightarrow> int" where
  "getOffsetInLumiSpan k tree textNode =
     (case parentElement tree textNode of
        None \<Rightarrow> -1
      | Some characterSpan \<Rightarrow>
          (case parentElement tree characterSpan of
             None \<Rightarrow> -1
           | Some lumiSpanRendererElement \<Rightarrow>
               (let lumiSpanRendererChildren = children_node tree lumiSpanRendererElement;
                    spanIndex = indexOf lumiSpanRendererChildren characterSpan;
                    inlineTagOffset =
                      int (length (filter (isInlineTag k tree)
                                     (slice0 lumiSpanRendererChildren spanIndex)))
                in spanIndex - inlineTagOffset)))"

subsection \<open>\<^verbatim>\<open>getSelectionInfo\<close>\<close>

record Range =
  startContainer :: "nat list"
  endContainer :: "nat list"

text \<open>A selection: the text of \<^verbatim>\<open>toString()\<close> and its ranges. \<^verbatim>\<open>getRangeAt(0)\<close> on a
  selection without ranges throws \<^verbatim>\<open>IndexSizeError\<close>.\<close>

record Selection =
  selectionString :: string
  ranges :: "Range list"

datatype SelectionError = IndexSizeError

datatype HighlightSelection =
  HighlightSelection (spanId_sel: string) (position_sel: "Position option")

record SelectionInfo =
  selectedText :: string
  parentSpan :: "nat list"
  highlightSelection :: "HighlightSelection list"

definition isTag :: "string \<Rightarrow> DomNode \<Rightarrow> bool" where
  "isTag name el \<longleftrightarrow> toLowerCase (tagName_node el) = name"

text \<open>
  The \<^verbatim>\<open>while\<close> loop that walks \<^verbatim>\<open>nextElementSibling\<close> from the start unit: \<open>ns\<close> are
  the sibling nodes after the current one and \<open>k\<close> is the index of the first of them under
  the parent \<open>pre\<close>. Text nodes are skipped; each next element is pushed when it is a
  \<^verbatim>\<open>lumi-span\<close>; the walk stops at the end unit or when the siblings run out.
\<close>

fun collectSiblings :: "nat list \<Rightarrow> nat list \<Rightarrow> nat \<Rightarrow> DomNode list \<Rightarrow> nat list list" where
  "collectSiblings pre endLumiSpan k [] = []"
| "collectSiblings pre endLumiSpan k (n # ns) =
     (if isElement n
      then (if isTag ''lumi-span'' n then [pre @ [k]] else [])
           @ (if pre @ [k] = endLumiSpan then []
              else collectSiblings pre endLumiSpan (Suc k) ns)
      else collectSiblings pre endLumiSpan (Suc k) ns)"

definition siblingsAfter :: "DomNode list \<Rightarrow> nat list \<Rightarrow> DomNode list" where
  "siblingsAfter tree p =
     (let level = (if butlast p = [] then tree
                   else (case nodeAt tree (butlast p) of None \<Rightarrow> [] | Some n \<Rightarrow> childNodes n))
      in drop (Suc (last p)) level)"

text \<open>One iteration of the loop over \<^verbatim>\<open>allLumiSpans\<close>.\<close>

definition selectionEntry ::
  "Constants \<Rightarrow> DomNode list \<Rightarrow> Range \<Rightarrow> nat list \<Rightarrow> nat list \<Rightarrow> nat list \<Rightarrow> HighlightSelection list" where
  "selectionEntry k tree rng startLumiSpan endLumiSpan lumiSpan =
     (case nodeAt tree lumiSpan of
        None \<Rightarrow> []
      | Some el \<Rightarrow>
          if id_node el = [] then []
          else
            (let startOffset = (if lumiSpan = startLumiSpan
                                then getOffsetInLumiSpan k tree (startContainer rng) else 0);
                 endOffset = (if lumiSpan = endLumiSpan
                              then getOffsetInLumiSpan k tree (endContainer rng)
                              else int (length (textContent el)))
             in [HighlightSelection (id_node el)
                   (Some \<lparr>startIndex = startOffset, endIndex = endOffset + 1\<rparr>)]))"

definition allLumiSpans :: "DomNode list \<Rightarrow> nat list \<Rightarrow> nat list \<Rightarrow> nat list list" where
  "allLumiSpans tree startLumiSpan endLumiSpan =
     startLumiSpan #
       (if startLumiSpan \<noteq> endLumiSpan
        then collectSiblings (butlast startLumiSpan) endLumiSpan (Suc (last startLumiSpan))
               (siblingsAfter tree startLumiSpan)
        else [])"

definition hasNoId :: "DomNode list \<Rightarrow> nat list \<Rightarrow> bool" where
  "hasNoId tree p = (case nodeAt tree p of None \<Rightarrow> True | Some el \<Rightarrow> id_node el = [])"

definition getSelectionInfo ::
  "Constants \<Rightarrow> DomNode list \<Rightarrow> Selection \<Rightarrow> SelectionError + SelectionInfo option" where
  "getSelectionInfo k tree selection =
     (let selectedText = trim (selectionString selection) in
      if length selectedText = 0 then Inr None
      else
        (case ranges selection of
           [] \<Rightarrow> Inl IndexSizeError
         | rng # others \<Rightarrow>
             (case findParent tree (isTag ''lumi-span'') (startContainer rng) of
                None \<Rightarrow> Inr None
              | Some startLumiSpan \<Rightarrow>
                  (case findParent tree (isTag ''lumi-span'') (endContainer rng) of
                     None \<Rightarrow> Inr None
                   | Some endLumiSpan \<Rightarrow>
                       if hasNoId tree startLumiSpan \<or> hasNoId tree endLumiSpan then Inr None
                       else
                         (let highlightSelection =
                                concat (map (selectionEntry k tree rng startLumiSpan endLumiSpan)
                                          (allLumiSpans tree startLumiSpan endLumiSpan))
                          in (case findParent tree (isTag ''span'') (startContainer rng) of
                                None \<Rightarrow> Inr None
                              | Some firstParentSpan \<Rightarrow>
                                  Inr (Some \<lparr>selectedText = selectedText,
                                             parentSpan = firstParentSpan,
                                             highlightSelection = highlightSelection\<rparr>)))))))"

subsection \<open>The fixtures of \<^verbatim>\<open>selection_utils.test.ts\<close>\<close>

text \<open>\<^verbatim>\<open>createCharacterSpans\<close>: an outer span holding one span per character, each with
  one text node; a mock \<^verbatim>\<open>lumi-span\<close> wraps it. Tag names are upper case, as the DOM
  reports them.\<close>

definition createCharacterSpans :: "string \<Rightarrow> DomNode" where
  "createCharacterSpans s =
     Element ''SPAN'' [] [''outer-span''] (map (\<lambda>c. Element ''SPAN'' [] [] [TextNode [c]]) s)"

definition mockLumiSpan :: "string \<Rightarrow> DomNode \<Rightarrow> DomNode" where
  "mockLumiSpan ident inner = Element ''LUMI-SPAN'' ident [] [inner]"

definition multiSpanFixture :: "DomNode list" where
  "multiSpanFixture =
     [mockLumiSpan ''test-span-1'' (createCharacterSpans ''First part. ''),
      mockLumiSpan ''test-span-2'' (createCharacterSpans ''Second part. ''),
      mockLumiSpan ''test-span-3'' (createCharacterSpans ''Third part.'')]"

definition multiSpanSelection :: Selection where
  "multiSpanSelection =
     \<lparr>selectionString = ''part. Second part. Third'',
      ranges = [\<lparr>startContainer = [0, 0, 6, 0], endContainer = [2, 0, 4, 0]\<rparr>]\<rparr>"

definition testConstants :: Constants where
  "testConstants = \<lparr>CITATION_CLASSNAME = ''citation-marker'', FOOTNOTE_CLASSNAME = ''footnote-marker''\<rparr>"

text \<open>The fixture with inline markers: \<^verbatim>\<open>[1]S<sup>2</sup>ome text.\<close>\<close>

definition inlineRenderer :: DomNode where
  "inlineRenderer =
     Element ''SPAN'' [] [''outer-span'']
       ([Element ''SPAN'' [] [''citation-marker''] [TextNode ''[1]''],
         Element ''SPAN'' [] [] [TextNode ''S''],
         Element ''SUP'' [] [''footnote-marker''] [TextNode ''2'']]
        @ map (\<lambda>c. Element ''SPAN'' [] [] [TextNode [c]]) ''ome text.'')"

definition inlineFixture :: "DomNode list" where
  "inlineFixture = [mockLumiSpan ''test-span-inline'' inlineRenderer]"

text \<open>A citation or footnote marker: an element whose class list holds one of the two
  class names.\<close>

definition isMarkerNode :: "Constants \<Rightarrow> DomNode \<Rightarrow> bool" where
  "isMarkerNode k n \<longleftrightarrow>
     CITATION_CLASSNAME k \<in> set (classList n) \<or> FOOTNOTE_CLASSNAME k \<in> set (classList n)"

section \<open>Document index\<close>

text \<open>
  The class \<^verbatim>\<open>LumiDocManager\<close> of \<^verbatim>\<open>shared/lumi_doc_manager.ts\<close> is exercised by
  \<^verbatim>\<open>lumi_doc_manager.test.ts\<close>; the document types and the index are modelled from the
  specification of the document index and the fixtures of that test.
\<close>

record Heading =
  headingLevel :: nat
  heading_text :: string

text \<open>Modelled from the spec: the content blocks of \<^verbatim>\<open>lumi_doc.ts\<close>. List content holds
  list items, each with spans and an optional nested sub-list; image, figure and HTML
  figure content carry optional caption spans.\<close>

datatype ListContent = ListContent "ListItem list" bool
  and ListItem = ListItem "LumiSpan list" "ListContent option"

datatype LumiContent =
  TextContent string "LumiSpan list"
| ListContentBlock ListContent
| ImageContent "LumiSpan option"
| FigureContent "LumiSpan option list" "LumiSpan option"
| HtmlFigureContent "LumiSpan option"

text \<open>Modelled from the spec: a section of \<^verbatim>\<open>lumi_doc.ts\<close>, with its identifier,
  heading, content blocks and subsections.\<close>

datatype LumiSection =
  LumiSection (id_section: string) (heading: Heading) (contents: "LumiContent list")
              (subSections: "LumiSection list")

text \<open>Modelled from the spec: the document of \<^verbatim>\<open>lumi_doc.ts\<close>: the content blocks of the
  abstract, the top-level sections and the references.\<close>

record LumiDoc =
  abstract :: "LumiContent list"
  sections :: "LumiSection list"
  references :: "LumiReference list"

text \<open>Modelled from the spec: the walk of \<^verbatim>\<open>LumiDocManager\<close> over a content block. List
  content is walked recursively into nested sub-lists; caption spans are included.\<close>

fun spansOfList :: "ListContent \<Rightarrow> LumiSpan list"
  and spansOfItem :: "ListItem \<Rightarrow> LumiSpan list" where
  "spansOfList (ListContent items ordered) = concat (map spansOfItem items)"
| "spansOfItem (ListItem sps sub) =
     sps @ (case sub of None \<Rightarrow> [] | Some l \<Rightarrow> spansOfList l)"

definition optionSpans :: "LumiSpan option \<Rightarrow> LumiSpan list" where
  "optionSpans o_sp = (case o_sp of None \<Rightarrow> [] | Some sp \<Rightarrow> [sp])"

fun spansOfContent :: "LumiContent \<Rightarrow> LumiSpan list" where
  "spansOfContent (TextContent tag sps) = sps"
| "spansOfContent (ListContentBlock l) = spansOfList l"
| "spansOfContent (ImageContent caption) = optionSpans caption"
| "spansOfContent (FigureContent images caption) =
     concat (map optionSpans images) @ optionSpans caption"
| "spansOfContent (HtmlFigureContent caption) = optionSpans caption"

text \<open>Modelled from the spec: the state of \<^verbatim>\<open>LumiDocManager\<close>: the lookup from span id
  to span, from span id to owning section, and from section id to parent section.\<close>

record DocIndex =
  spanMap :: "string \<rightharpoonup> LumiSpan"
  spanToSection :: "string \<rightharpoonup> LumiSection"
  sectionParent :: "string \<rightharpoonup> LumiSection"

definition emptyIndex :: DocIndex where
  "emptyIndex = \<lparr>spanMap = Map.empty, spanToSection = Map.empty, sectionParent = Map.empty\<rparr>"

text \<open>Modelled from the spec: indexing one span under its owning section; a span of the
  abstract or of a reference is indexed under no section.\<close>

definition indexSpan :: "LumiSection option \<Rightarrow> LumiSpan \<Rightarrow> DocIndex \<Rightarrow> DocIndex" where
  "indexSpan owner sp ix =
     ix\<lparr>spanMap := (spanMap ix)(id_span sp \<mapsto> sp),
        spanToSection :=
          (case owner of
             None \<Rightarrow> spanToSection ix
           | Some sec \<Rightarrow> (spanToSection ix)(id_span sp \<mapsto> sec))\<rparr>"

definition indexContent :: "LumiSection option \<Rightarrow> LumiContent \<Rightarrow> DocIndex \<Rightarrow> DocIndex" where
  "indexContent owner c ix = fold (indexSpan owner) (spansOfContent c) ix"

text \<open>Modelled from the spec: the walk over a section: the spans of its own content first,
  owned by the section itself, then each subsection in order, depth first, with the
  section recorded as the parent of the subsection.\<close>

fun indexSection :: "LumiSection \<Rightarrow> DocIndex \<Rightarrow> DocIndex" where
  "indexSection (LumiSection i h cs subs) ix =
     fold (\<lambda>sub ix'.
             indexSection sub
               (ix'\<lparr>sectionParent := (sectionParent ix')(id_section sub \<mapsto> LumiSection i h cs subs)\<rparr>))
          subs
          (fold (indexContent (Some (LumiSection i h cs subs))) cs ix)"

text \<open>Modelled from the spec: the constructor of \<^verbatim>\<open>LumiDocManager\<close>: the abstract, then
  the top-level sections, then the spans of the references.\<close>

definition buildIndex :: "LumiDoc \<Rightarrow> DocIndex" where
  "buildIndex doc =
     fold (\<lambda>r. indexSpan None (span_reference r)) (LumiDoc.references doc)
       (fold indexSection (sections doc)
          (fold (indexContent None) (abstract doc) emptyIndex))"

text \<open>Modelled from the spec: the queries of \<^verbatim>\<open>LumiDocManager\<close>; an unknown id gives
  \<open>None\<close>.\<close>

definition getSpanById :: "DocIndex \<Rightarrow> string \<Rightarrow> LumiSpan option" where
  "getSpanById ix sid = spanMap ix sid"

definition getSectionForSpan :: "DocIndex \<Rightarrow> string \<Rightarrow> LumiSection option" where
  "getSectionForSpan ix sid = spanToSection ix sid"

definition getParentSection :: "DocIndex \<Rightarrow> string \<Rightarrow> LumiSection option" where
  "getParentSection ix sid = sectionParent ix sid"

subsection \<open>Vocabulary for the properties of the index\<close>

text \<open>The spans a section holds in its own content blocks, every section of a tree with
  the section itself first, and the spans of a document in the order of the walk.\<close>

definition ownSpans :: "LumiSection \<Rightarrow> LumiSpan list" where
  "ownSpans sec = concat (map spansOfContent (contents sec))"

fun allSections :: "LumiSection \<Rightarrow> LumiSection list" where
  "allSections (LumiSection i h cs subs) =
     LumiSection i h cs subs # concat (map allSections subs)"

definition abstractSpans :: "LumiDoc \<Rightarrow> LumiSpan list" where
  "abstractSpans doc = concat (map spansOfContent (abstract doc))"

definition sectionSpans :: "LumiDoc \<Rightarrow> LumiSpan list" where
  "sectionSpans doc = concat (map ownSpans (concat (map allSections (sections doc))))"

definition docSpans :: "LumiDoc \<Rightarrow> LumiSpan list" where
  "docSpans doc =
     abstractSpans doc @ sectionSpans doc @ map span_reference (LumiDoc.references doc)"

text \<open>Writing a list of (key, value) pairs into a map in order, a later pair over an
  earlier one, and the (span id, owning section) pairs of a section in the order of the
  walk.\<close>

definition applyPairs :: "('k \<times> 'v) list \<Rightarrow> ('k \<rightharpoonup> 'v) \<Rightarrow> ('k \<rightharpoonup> 'v)" where
  "applyPairs ps m = fold (\<lambda>kv m'. m'(fst kv \<mapsto> snd kv)) ps m"

fun sectionPairs :: "LumiSection \<Rightarrow> (string \<times> LumiSection) list" where
  "sectionPairs (LumiSection i h cs subs) =
     map (\<lambda>sp. (id_span sp, LumiSection i h cs subs)) (concat (map spansOfContent cs))
     @ concat (map sectionPairs subs)"

subsection \<open>The fixture of \<^verbatim>\<open>lumi_doc_manager.test.ts\<close> for \<^verbatim>\<open>getSectionForSpan\<close>\<close>

definition createSpan :: "string \<Rightarrow> string \<Rightarrow> LumiSpan" where
  "createSpan i t = \<lparr>id_span = i, text_span = t, innerTags = []\<rparr>"

definition createSection :: "string \<Rightarrow> LumiContent list \<Rightarrow> LumiSection list \<Rightarrow> LumiSection" where
  "createSection i cs subs =
     LumiSection i \<lparr>headingLevel = 1, heading_text = ''Test Section''\<rparr> cs subs"

definition subSectionFixture :: LumiSection where
  "subSectionFixture =
     createSection ''sub-section'' [TextContent ''p'' [createSpan ''span-2'' ''Nested'']] []"

definition topSectionFixture :: LumiSection where
  "topSectionFixture =
     createSection ''top-section''
       [TextContent ''p'' [createSpan ''span-1'' ''Top level''],
        ListContentBlock (ListContent [ListItem [createSpan ''span-3'' ''In a list''] None] False)]
       [subSectionFixture]"

definition docFixture :: LumiDoc where
  "docFixture =
     \<lparr>abstract = [TextContent ''p'' [createSpan ''abstract-span'' ''Abstract'']],
      sections = [topSectionFixture],
      references = []\<rparr>"

section \<open>Compositor (\<^verbatim>\<open>components/lumi_span/lumi_span.ts\<close>)\<close>

subsection \<open>Formatting counters\<close>

text \<open>
  A \<^verbatim>\<open>FormattingCounter\<close> is an object from keys to metadata objects. Its keys are the
  tag kinds, the key \<^verbatim>\<open>general_highlight_key\<close> of the highlights and the key
  \<^verbatim>\<open>character\<close> that \<^verbatim>\<open>calculateRenderedContent\<close> adds when it renders a character.
\<close>

datatype CounterKey = TagKey InnerTagName | GENERAL_HIGHLIGHT_KEY | CharacterKey

type_synonym FormattingCounter = "CounterKey \<rightharpoonup> Metadata"

definition COLOR_HIGHLIGHT_KEY :: string where
  "COLOR_HIGHLIGHT_KEY = ''highlight_color''"

text \<open>
  The body of both marking loops: \<^verbatim>\<open>const currentCounter = formattingCounters[i];
  if (currentCounter) { ... }\<close>. An index outside the array reads \<^verbatim>\<open>undefined\<close> and
  the write is skipped.
\<close>

definition markAt ::
  "(FormattingCounter \<Rightarrow> FormattingCounter) \<Rightarrow> int \<Rightarrow> FormattingCounter list \<Rightarrow> FormattingCounter list" where
  "markAt f i counters =
     (if 0 \<le> i \<and> i < int (length counters)
      then counters[nat i := f (counters ! nat i)] else counters)"

text \<open>\<^verbatim>\<open>currentCounter[tagName] = {...innerTag.metadata, ...(currentCounter[tagName] || {})}\<close>\<close>

definition tagUpdate :: "InnerTag \<Rightarrow> FormattingCounter \<Rightarrow> FormattingCounter" where
  "tagUpdate innerTag currentCounter =
     currentCounter(TagKey (tagName innerTag) \<mapsto>
       InnerTag.metadata innerTag
         ++ (case currentCounter (TagKey (tagName innerTag)) of None \<Rightarrow> Map.empty | Some old \<Rightarrow> old))"

text \<open>\<^verbatim>\<open>for (let i = position.startIndex; i < position.endIndex; i++)\<close>\<close>

definition markTag :: "InnerTag \<Rightarrow> FormattingCounter list \<Rightarrow> FormattingCounter list" where
  "markTag innerTag counters =
     fold (markAt (tagUpdate innerTag))
       [startIndex (InnerTag.position innerTag) .. endIndex (InnerTag.position innerTag) - 1]
       counters"

text \<open>The entry a highlight writes: its colour under \<^verbatim>\<open>highlight_color\<close>, spread over its
  metadata when it has some.\<close>

definition highlightEntry :: "Highlight \<Rightarrow> Metadata" where
  "highlightEntry highlight =
     (case metadata highlight of
        None \<Rightarrow> [COLOR_HIGHLIGHT_KEY \<mapsto> color highlight]
      | Some md \<Rightarrow> md ++ [COLOR_HIGHLIGHT_KEY \<mapsto> color highlight])"

definition highlightUpdate :: "Highlight \<Rightarrow> FormattingCounter \<Rightarrow> FormattingCounter" where
  "highlightUpdate highlight currentCounter =
     currentCounter(GENERAL_HIGHLIGHT_KEY \<mapsto> highlightEntry highlight)"

definition highlightStart :: "Highlight \<Rightarrow> int" where
  "highlightStart highlight = (case position highlight of None \<Rightarrow> 0 | Some p \<Rightarrow> startIndex p)"

definition highlightEnd :: "nat \<Rightarrow> Highlight \<Rightarrow> int" where
  "highlightEnd textLength highlight =
     (case position highlight of None \<Rightarrow> int textLength | Some p \<Rightarrow> endIndex p)"

definition markHighlight :: "nat \<Rightarrow> Highlight \<Rightarrow> FormattingCounter list \<Rightarrow> FormattingCounter list" where
  "markHighlight textLength highlight counters =
     fold (markAt (highlightUpdate highlight))
       [highlightStart highlight .. highlightEnd textLength highlight - 1] counters"

text \<open>The two marking passes over one empty counter per character.\<close>

definition formattingCounters ::
  "string \<Rightarrow> InnerTag list \<Rightarrow> Highlight list \<Rightarrow> FormattingCounter list" where
  "formattingCounters spanText allInnerTags allHighlights =
     fold (markHighlight (length spanText)) allHighlights
       (fold markTag allInnerTags (replicate (length spanText) Map.empty))"

subsection \<open>Rendered units\<close>

text \<open>
  The templates the compositor emits, as data. A citation marker lists (number, reference),
  a span citation marker (number, id). A character unit keeps the character and the
  \<^verbatim>\<open>classesAndMetadata\<close> object it was rendered from: its class map and click handler
  are computed from that object, the \<^verbatim>\<open>font\<close> property and the callbacks.
\<close>

datatype Template =
  CitationTemplate "(int \<times> LumiReference) list"
| FootnoteTemplate int LumiFootnote
| SpanCitationTemplate "(int \<times> string) list"
| EquationTemplate string bool
| EmptyTemplate
| LinkCharacter string char FormattingCounter
| FormattedCharacter char FormattingCounter
| PlainCharacter char

datatype RenderedContent = EmptyContent | RendererElement "Template list"

definition renderEquation :: "string \<Rightarrow> bool \<Rightarrow> Template" where
  "renderEquation equationText hasDisplayMathTag = EquationTemplate equationText hasDisplayMathTag"

definition hasClass :: "FormattingCounter \<Rightarrow> InnerTagName \<Rightarrow> bool" where
  "hasClass classesAndMetadata name \<longleftrightarrow> classesAndMetadata (TagKey name) \<noteq> None"

definition renderFormattedCharacter :: "char \<Rightarrow> FormattingCounter \<Rightarrow> Template" where
  "renderFormattedCharacter character classesAndMetadata =
     (if hasClass classesAndMetadata REFERENCE \<or> hasClass classesAndMetadata SPAN_REFERENCE
         \<or> hasClass classesAndMetadata FOOTNOTE
      then EmptyTemplate
      else if hasClass classesAndMetadata A
      then (let md = (case classesAndMetadata (TagKey A) of None \<Rightarrow> Map.empty | Some m \<Rightarrow> m);
                href = (case md ''href'' of None \<Rightarrow> ''#'' | Some h \<Rightarrow> if h = [] then ''#'' else h)
            in LinkCharacter href character classesAndMetadata)
      else FormattedCharacter character classesAndMetadata)"

definition renderNonformattedCharacters :: "string \<Rightarrow> Template list" where
  "renderNonformattedCharacters v = map PlainCharacter v"

subsection \<open>\<^verbatim>\<open>createInsertionsMap\<close>\<close>

text \<open>\<^verbatim>\<open>String.prototype.split\<close> on a one-character separator and
  \<^verbatim>\<open>Array.prototype.findIndex\<close> (\<open>-1\<close> when no element satisfies the predicate).\<close>

fun splitOn :: "char \<Rightarrow> string \<Rightarrow> string list" where
  "splitOn sep [] = [[]]"
| "splitOn sep (c # cs) =
     (if c = sep then [] # splitOn sep cs
      else (case splitOn sep cs of [] \<Rightarrow> [[c]] | w # ws \<Rightarrow> (c # w) # ws))"

fun findIndex :: "('a \<Rightarrow> bool) \<Rightarrow> 'a list \<Rightarrow> int" where
  "findIndex P [] = -1"
| "findIndex P (x # xs) =
     (if P x then 0 else (let r = findIndex P xs in if r < 0 then -1 else r + 1))"

text \<open>The properties of the component that the compositor reads. \<open>None\<close> is an absent
  (\<^verbatim>\<open>undefined\<close>) property.\<close>

record LumiSpanViz =
  span :: "LumiSpan option"
  highlights :: "Highlight list option"
  references :: "LumiReference list option"
  footnotes :: "LumiFootnote list option"
  referencedSpans :: "LumiSpan list option"

text \<open>\<^verbatim>\<open>innerTag.metadata["id"]\<close> when it is truthy (present and not the empty string).\<close>

definition truthyId :: "InnerTag \<Rightarrow> string option" where
  "truthyId innerTag =
     (case InnerTag.metadata innerTag ''id'' of
        None \<Rightarrow> None
      | Some s \<Rightarrow> if s = [] then None else Some s)"

definition referenceCitations :: "LumiReference list \<Rightarrow> string \<Rightarrow> (int \<times> LumiReference) list" where
  "referenceCitations refs ident =
     concat (map (\<lambda>refId.
        (let refIndex = findIndex (\<lambda>r. id_reference r = refId) refs
         in if refIndex \<noteq> -1 then [(refIndex + 1, refs ! nat refIndex)] else []))
       (map trim (splitOn CHR '','' ident)))"

text \<open>The template one inner tag adds to the map, if any: the three branches of the
  \<^verbatim>\<open>if\<close>/\<^verbatim>\<open>else if\<close> chain.\<close>

definition insertionTemplate :: "LumiSpanViz \<Rightarrow> InnerTag \<Rightarrow> Template option" where
  "insertionTemplate viz innerTag =
     (if tagName innerTag = REFERENCE \<and> truthyId innerTag \<noteq> None \<and> references viz \<noteq> None
      then (case (truthyId innerTag, references viz) of
              (Some ident, Some refs) \<Rightarrow>
                (let citations = referenceCitations refs ident
                 in if length citations > 0 then Some (CitationTemplate citations) else None)
            | _ \<Rightarrow> None)
      else if tagName innerTag = FOOTNOTE \<and> truthyId innerTag \<noteq> None \<and> footnotes viz \<noteq> None
      then (case (truthyId innerTag, footnotes viz) of
              (Some footnoteId, Some notes) \<Rightarrow>
                (let footnoteIndex = findIndex (\<lambda>note. id_footnote note = footnoteId) notes
                 in if footnoteIndex \<noteq> -1
                    then Some (FootnoteTemplate (footnoteIndex + 1) (notes ! nat footnoteIndex))
                    else None)
            | _ \<Rightarrow> None)
      else if tagName innerTag = SPAN_REFERENCE \<and> truthyId innerTag \<noteq> None
              \<and> referencedSpans viz \<noteq> None
      then (case (truthyId innerTag, referencedSpans viz) of
              (Some refId, Some spans) \<Rightarrow>
                (let refIndex = indexOf (map id_span spans) refId;
                     citations = (if refIndex \<noteq> -1 then [(refIndex + 1, refId)] else [])
                 in if length citations > 0 then Some (SpanCitationTemplate citations) else None)
            | _ \<Rightarrow> None)
      else None)"

text \<open>\<^verbatim>\<open>if (!insertions.has(i)) insertions.set(i, []); insertions.get(i).push(t)\<close>\<close>

definition pushInsertion ::
  "int \<Rightarrow> Template \<Rightarrow> (int \<rightharpoonup> Template list) \<Rightarrow> (int \<rightharpoonup> Template list)" where
  "pushInsertion insertionIndex t insertions =
     insertions(insertionIndex \<mapsto>
       (case insertions insertionIndex of None \<Rightarrow> [] | Some ts \<Rightarrow> ts) @ [t])"

definition insertTag ::
  "LumiSpanViz \<Rightarrow> InnerTag \<Rightarrow> (int \<rightharpoonup> Template list) \<Rightarrow> (int \<rightharpoonup> Template list)" where
  "insertTag viz innerTag insertions =
     (case insertionTemplate viz innerTag of
        None \<Rightarrow> insertions
      | Some t \<Rightarrow> pushInsertion (startIndex (InnerTag.position innerTag)) t insertions)"

text \<open>The map is built from the top-level \<^verbatim>\<open>span.innerTags\<close>, not from the flattened
  list.\<close>

definition createInsertionsMap :: "LumiSpanViz \<Rightarrow> InnerTag list \<Rightarrow> (int \<rightharpoonup> Template list)" where
  "createInsertionsMap viz tags = fold (insertTag viz) tags Map.empty"

definition insertionsAt :: "(int \<rightharpoonup> Template list) \<Rightarrow> int \<Rightarrow> Template list" where
  "insertionsAt insertions i = (case insertions i of None \<Rightarrow> [] | Some ts \<Rightarrow> ts)"

subsection \<open>\<^verbatim>\<open>calculateRenderedContent\<close>\<close>

text \<open>
  One call of the \<^verbatim>\<open>flatMap\<close> callback. The state is the variable
  \<^verbatim>\<open>equationText\<close>, which the callback updates, together with the arrays returned so
  far, one per index; \<^verbatim>\<open>flatMap\<close> concatenates them.
\<close>

definition partStep ::
  "string \<Rightarrow> FormattingCounter list \<Rightarrow> (int \<rightharpoonup> Template list)
     \<Rightarrow> nat \<Rightarrow> string \<times> Template list list \<Rightarrow> string \<times> Template list list" where
  "partStep spanText counters insertions index st =
     (let equationText = fst st;
          parts = snd st;
          c = spanText ! index;
          templates = insertionsAt insertions (int index);
          hasBasicMathTag = (counters ! index) (TagKey MATH) \<noteq> None;
          hasDisplayMathTag = (counters ! index) (TagKey MATH_DISPLAY) \<noteq> None;
          hasMathTag = (hasBasicMathTag \<or> hasDisplayMathTag)
      in if hasMathTag
         then (let equationText' = equationText @ [c];
                   nextIndex = index + 1;
                   tagToCheck = (if hasBasicMathTag then MATH else MATH_DISPLAY)
               in if nextIndex < length spanText
                     \<and> (counters ! nextIndex) (TagKey tagToCheck) \<noteq> None
                  then (equationText', parts @ [templates])
                  else ([], parts @ [templates @ [renderEquation equationText' hasDisplayMathTag]]))
         else (equationText,
               parts @ [templates
                        @ [renderFormattedCharacter c
                             ([CharacterKey \<mapsto> Map.empty] ++ (counters ! index))]]))"

definition partsPerIndex ::
  "string \<Rightarrow> FormattingCounter list \<Rightarrow> (int \<rightharpoonup> Template list) \<Rightarrow> Template list list" where
  "partsPerIndex spanText counters insertions =
     snd (fold (partStep spanText counters insertions) [0..<length spanText] ([], []))"

definition calculateRenderedContent :: "LumiSpanViz \<Rightarrow> RenderedContent" where
  "calculateRenderedContent viz =
     (case span viz of
        None \<Rightarrow> EmptyContent
      | Some sp \<Rightarrow>
          (let allHighlights = (case highlights viz of None \<Rightarrow> [] | Some hs \<Rightarrow> hs);
               spanText = text_span sp;
               hasHighlight = (length allHighlights > 0);
               allInnerTags = flattenTags (innerTags sp) 0;
               insertions = createInsertionsMap viz (innerTags sp)
           in if \<not> hasHighlight \<and> length allInnerTags = 0 \<and> insertions = Map.empty
              then RendererElement (renderNonformattedCharacters spanText)
              else
                (let counters = formattingCounters spanText allInnerTags allHighlights;
                     partsTemplateResults = concat (partsPerIndex spanText counters insertions)
                 in RendererElement
                      (partsTemplateResults @ insertionsAt insertions (int (length spanText))))))"

subsection \<open>Vocabulary for the properties of the compositor\<close>

text \<open>An interval covers an index when the index lies in its half-open range; a highlight
  without a position has the range of the whole text.\<close>

definition covers :: "int \<Rightarrow> InnerTag \<Rightarrow> bool" where
  "covers i t \<longleftrightarrow> startIndex (InnerTag.position t) \<le> i \<and> i < endIndex (InnerTag.position t)"

definition coversH :: "nat \<Rightarrow> int \<Rightarrow> Highlight \<Rightarrow> bool" where
  "coversH textLength i h \<longleftrightarrow> highlightStart h \<le> i \<and> i < highlightEnd textLength h"

text \<open>The counter of one index computed from the intervals that cover it alone: the
  covering tags in list order, then the covering highlights in list order.\<close>

definition pointCounter :: "nat \<Rightarrow> InnerTag list \<Rightarrow> Highlight list \<Rightarrow> int \<Rightarrow> FormattingCounter" where
  "pointCounter textLength tags hs i =
     fold highlightUpdate (filter (coversH textLength i) hs)
       (fold tagUpdate (filter (covers i) tags) Map.empty)"




text \<open>Math runs as the loop sees them. An index carries a kind when its counter has the
  key; the run of an index goes on to the next index when that one carries the kind the
  loop checks (\<^verbatim>\<open>math\<close> first when the index carries both).\<close>

definition hasKind :: "FormattingCounter list \<Rightarrow> nat \<Rightarrow> InnerTagName \<Rightarrow> bool" where
  "hasKind counters i k \<longleftrightarrow> (counters ! i) (TagKey k) \<noteq> None"

definition mathAt :: "FormattingCounter list \<Rightarrow> nat \<Rightarrow> bool" where
  "mathAt counters i \<longleftrightarrow> hasKind counters i MATH \<or> hasKind counters i MATH_DISPLAY"

definition continuesRun :: "string \<Rightarrow> FormattingCounter list \<Rightarrow> nat \<Rightarrow> bool" where
  "continuesRun spanText counters i \<longleftrightarrow>
     mathAt counters i \<and> i + 1 < length spanText
     \<and> hasKind counters (i + 1) (if hasKind counters i MATH then MATH else MATH_DISPLAY)"

text \<open>The characters of the run that are accumulated when the loop reaches an index.\<close>

fun pendingEquation :: "string \<Rightarrow> FormattingCounter list \<Rightarrow> nat \<Rightarrow> string" where
  "pendingEquation spanText counters 0 = []"
| "pendingEquation spanText counters (Suc i) =
     (if continuesRun spanText counters i
      then pendingEquation spanText counters i @ [spanText ! i] else [])"

text \<open>The units emitted for the character of an index, after the insertions of the index:
  nothing inside a run that goes on, the equation of the run at its last index, the
  formatted character otherwise.\<close>

definition characterUnits :: "string \<Rightarrow> FormattingCounter list \<Rightarrow> nat \<Rightarrow> Template list" where
  "characterUnits spanText counters i =
     (if mathAt counters i
      then (if continuesRun spanText counters i then []
            else [EquationTemplate (pendingEquation spanText counters i @ [spanText ! i])
                    (hasKind counters i MATH_DISPLAY)])
      else [renderFormattedCharacter (spanText ! i)
              ([CharacterKey \<mapsto> Map.empty] ++ (counters ! i))])"

text \<open>The templates of the tags anchored at an offset, in the order of the tags.\<close>

definition anchoredAt :: "LumiSpanViz \<Rightarrow> InnerTag list \<Rightarrow> int \<Rightarrow> Template list" where
  "anchoredAt viz tags i =
     concat (map (\<lambda>t. case insertionTemplate viz t of
                         None \<Rightarrow> []
                       | Some tpl \<Rightarrow> if startIndex (InnerTag.position t) = i then [tpl] else [])
               tags)"

text \<open>A reference-like tag resolves when its metadata id names an entry of the list of its
  kind: for a citation, one of the comma-separated, trimmed ids.\<close>

definition resolves :: "LumiSpanViz \<Rightarrow> InnerTag \<Rightarrow> bool" where
  "resolves viz t =
     (case InnerTag.metadata t ''id'' of
        None \<Rightarrow> False
      | Some ident \<Rightarrow>
          if tagName t = REFERENCE
          then (case references viz of
                  None \<Rightarrow> False
                | Some refs \<Rightarrow>
                    \<exists>r \<in> set refs. id_reference r \<in> set (map trim (splitOn CHR '','' ident)))
          else if tagName t = FOOTNOTE
          then (case footnotes viz of
                  None \<Rightarrow> False
                | Some notes \<Rightarrow> ident \<in> id_footnote ` set notes)
          else if tagName t = SPAN_REFERENCE
          then (case referencedSpans viz of
                  None \<Rightarrow> False
                | Some spans \<Rightarrow> ident \<in> id_span ` set spans)
          else False)"

subsection \<open>Inputs for evaluating the compositor\<close>



definition yellowHighlight :: Highlight where
  "yellowHighlight =
     \<lparr>color = ''yellow'', spanId = ''s1'',
      position = Some \<lparr>startIndex = 0, endIndex = 2\<rparr>, metadata = None\<rparr>"

definition greenHighlight :: Highlight where
  "greenHighlight =
     \<lparr>color = ''green'', spanId = ''s1'', position = None, metadata = None\<rparr>"

definition unresolvedTag :: InnerTag where
  "unresolvedTag = InnerTag REFERENCE \<lparr>startIndex = 0, endIndex = 2\<rparr> [''id'' \<mapsto> ''zzz''] None"

definition vizWith :: "string \<Rightarrow> InnerTag list \<Rightarrow> LumiSpanViz" where
  "vizWith s tags =
     \<lparr>span = Some \<lparr>id_span = ''s1'', text_span = s, innerTags = tags\<rparr>,
      highlights = None, references = Some [], footnotes = None, referencedSpans = None\<rparr>"

definition footnoteOne :: LumiFootnote where
  "footnoteOne =
     \<lparr>id_footnote = ''f1'',
      span_footnote = \<lparr>id_span = ''fs1'', text_span = ''first note'', innerTags = []\<rparr>\<rparr>"

definition footnoteTwo :: LumiFootnote where
  "footnoteTwo =
     \<lparr>id_footnote = ''f2'',
      span_footnote = \<lparr>id_span = ''fs2'', text_span = ''second note'', innerTags = []\<rparr>\<rparr>"

definition footnoteTag :: "int \<Rightarrow> string \<Rightarrow> InnerTag" where
  "footnoteTag i ident =
     InnerTag FOOTNOTE \<lparr>startIndex = i, endIndex = i\<rparr> [''id'' \<mapsto> ident] None"

definition footnoteViz :: "string \<Rightarrow> InnerTag list \<Rightarrow> LumiSpanViz" where
  "footnoteViz s tags =
     \<lparr>span = Some \<lparr>id_span = ''s1'', text_span = s, innerTags = tags\<rparr>,
      highlights = None, references = None, footnotes = Some [footnoteOne, footnoteTwo],
      referencedSpans = None\<rparr>"

definition mathTag :: "InnerTagName \<Rightarrow> int \<Rightarrow> int \<Rightarrow> InnerTag" where
  "mathTag k s e = InnerTag k \<lparr>startIndex = s, endIndex = e\<rparr> Map.empty None"

section \<open>Properties of the highlight store\<close>

lemma getSpanHighlights_addHighlight:
  "getSpanHighlights (addHighlight h m) x =
     getSpanHighlights m x @ (if spanId h = x then [h] else [])"
  by (simp add: getSpanHighlights_def addHighlight_def Let_def split: option.splits)

lemma getSpanHighlights_addHighlights:
  "getSpanHighlights (addHighlights hs m) x =
     getSpanHighlights m x @ filter (\<lambda>h. spanId h = x) hs"
  unfolding addHighlights_def
proof (induction hs arbitrary: m)
  case Nil
  show ?case by simp
next
  case (Cons h hs)
  show ?case by (simp add: Cons.IH getSpanHighlights_addHighlight)
qed

lemma highlightedSpans_removeHighlights:
  "highlightedSpans (removeHighlights sids m) y =
     (if y \<in> set sids then None else highlightedSpans m y)"
  unfolding removeHighlights_def
  by (induction sids arbitrary: m) auto

lemma highlightedImages_removeHighlights:
  "highlightedImages (removeHighlights sids m) = highlightedImages m"
  unfolding removeHighlights_def
  by (induction sids arbitrary: m) auto

lemma removeHighlights_unknown:
  assumes "set sids \<inter> dom (highlightedSpans m) = {}"
  shows "removeHighlights sids m = m"
proof -
  have "highlightedSpans (removeHighlights sids m) = highlightedSpans m"
  proof
    fix y
    show "highlightedSpans (removeHighlights sids m) y = highlightedSpans m y"
    proof (cases "y \<in> set sids")
      case True
      with assms have "highlightedSpans m y = None" by (auto simp: domIff)
      with True show ?thesis by (simp add: highlightedSpans_removeHighlights)
    next
      case False
      then show ?thesis by (simp add: highlightedSpans_removeHighlights)
    qed
  qed
  moreover have "HighlightManagerBase.more (removeHighlights sids m) = HighlightManagerBase.more m"
    unfolding removeHighlights_def by (induction sids arbitrary: m) auto
  ultimately show ?thesis
    by (simp add: highlightedImages_removeHighlights HighlightManagerBase.equality)
qed

text \<open>
  Claim C7. Adding a list of highlights appends each one to the list of its span, after
  the highlights already stored there and in the order of the added list, so adding N
  highlights that all target span X and then querying X gives the old list of X followed by
  exactly those N. Removing X leaves X with no highlights and every other span's list as
  it was; removing an id that has no entry changes nothing. Clearing leaves every span
  with an empty list. Querying a span id that has no entry gives the empty list.
\<close>

theorem highlight_store_contract:
  "getSpanHighlights (addHighlights hs m) x
      = getSpanHighlights m x @ filter (\<lambda>h. spanId h = x) hs
   \<and> ((\<forall>h \<in> set hs. spanId h = x) \<longrightarrow>
        getSpanHighlights (addHighlights hs m) x = getSpanHighlights m x @ hs)
   \<and> getSpanHighlights (removeHighlights [x] m) x = []
   \<and> (y \<noteq> x \<longrightarrow> getSpanHighlights (removeHighlights [x] m) y = getSpanHighlights m y)
   \<and> (highlightedSpans m x = None \<longrightarrow> removeHighlights [x] m = m)
   \<and> getSpanHighlights (clearHighlights m) y = []
   \<and> (highlightedSpans m y = None \<longrightarrow> getSpanHighlights m y = [])"
proof -
  have a: "getSpanHighlights (addHighlights hs m) x
      = getSpanHighlights m x @ filter (\<lambda>h. spanId h = x) hs"
    by (rule getSpanHighlights_addHighlights)
  have b: "(\<forall>h \<in> set hs. spanId h = x) \<longrightarrow>
        getSpanHighlights (addHighlights hs m) x = getSpanHighlights m x @ hs"
    by (simp add: getSpanHighlights_addHighlights)
  have c: "getSpanHighlights (removeHighlights [x] m) x = []"
    by (simp add: getSpanHighlights_def highlightedSpans_removeHighlights)
  have d: "y \<noteq> x \<longrightarrow> getSpanHighlights (removeHighlights [x] m) y = getSpanHighlights m y"
    by (simp add: getSpanHighlights_def highlightedSpans_removeHighlights)
  have e: "highlightedSpans m x = None \<longrightarrow> removeHighlights [x] m = m"
    by (auto intro: removeHighlights_unknown)
  have f: "getSpanHighlights (clearHighlights m) y = []"
    by (simp add: getSpanHighlights_def clearHighlights_def)
  have g: "highlightedSpans m y = None \<longrightarrow> getSpanHighlights m y = []"
    by (simp add: getSpanHighlights_def)
  from a b c d e f g show ?thesis by blast
qed

theorem highlight_store_contract_witness:
  "spanId \<lparr>color = ''yellow'', spanId = ''X'', position = None, metadata = None\<rparr> = ''X''
   \<and> spanId \<lparr>color = ''green'', spanId = ''X'',
         position = Some \<lparr>startIndex = 0, endIndex = 5\<rparr>, metadata = None\<rparr> = ''X''
   \<and> ''Y'' \<noteq> ''X''
   \<and> highlightedSpans newHighlightManager ''X'' = None
   \<and> highlightedSpans newHighlightManager ''Y'' = None
   \<and> getSpanHighlights
         (addHighlights [\<lparr>color = ''yellow'', spanId = ''X'', position = None, metadata = None\<rparr>,
                         \<lparr>color = ''green'', spanId = ''X'',
                          position = Some \<lparr>startIndex = 0, endIndex = 5\<rparr>, metadata = None\<rparr>]
            newHighlightManager) ''X''
       = [\<lparr>color = ''yellow'', spanId = ''X'', position = None, metadata = None\<rparr>,
          \<lparr>color = ''green'', spanId = ''X'',
           position = Some \<lparr>startIndex = 0, endIndex = 5\<rparr>, metadata = None\<rparr>]
   \<and> removeHighlights [''X''] newHighlightManager = newHighlightManager
   \<and> getSpanHighlights (removeHighlights [''X''] newHighlightManager) ''Y''
       = getSpanHighlights newHighlightManager ''Y''
   \<and> getSpanHighlights newHighlightManager ''Y'' = []"
  using highlight_store_contract
    [of "[\<lparr>color = ''yellow'', spanId = ''X'', position = None, metadata = None\<rparr>,
          \<lparr>color = ''green'', spanId = ''X'',
           position = Some \<lparr>startIndex = 0, endIndex = 5\<rparr>, metadata = None\<rparr>]"
        newHighlightManager "''X''" "''Y''"]
  by (simp add: newHighlightManager_def getSpanHighlights_def)

section \<open>Properties of the tag flattener\<close>

lemma pathsFrom_nonempty: "p \<in> set (pathsFrom k ts) \<Longrightarrow> p \<noteq> []"
  by (induction k ts rule: pathsFrom.induct) (auto split: option.splits)

lemma tagAt_Cons_nonempty: "q \<noteq> [] \<Longrightarrow> i < length ts \<Longrightarrow> tagAt ts (i # q) = tagAt (kids (ts ! i)) q"
  by (cases q) auto

lemma ancestorOffset_Cons_nonempty:
  "q \<noteq> [] \<Longrightarrow> i < length ts \<Longrightarrow>
   ancestorOffset ts (i # q) = startIndex (InnerTag.position (ts ! i)) + ancestorOffset (kids (ts ! i)) q"
  by (cases q) auto

lemma shiftTag_shiftTag: "shiftTag a (shiftTag b t) = shiftTag (a + b) t"
  by (cases t) (simp add: shiftTag_def)

lemma flattenTags_paths_gen:
  "map Some (flattenTags ts off) =
     map (\<lambda>p. map_option (shiftTag off) (emitAt (pre @ ts) p)) (pathsFrom (length pre) ts)"
proof (induction ts off arbitrary: pre rule: flattenTags.induct)
  case (1 parentOffset)
  show ?case by simp
next
  case (2 name pos md ch tags parentOffset)
  let ?t = "InnerTag name pos md ch"
  let ?k = "length pre"
  let ?full = "pre @ ?t # tags"
  have head: "map_option (shiftTag parentOffset) (emitAt ?full [?k])
      = Some (InnerTag name \<lparr>startIndex = startIndex pos + parentOffset,
                              endIndex = endIndex pos + parentOffset\<rparr> md None)"
    by (simp add: emitAt_def shiftTag_def)
  have tail: "map Some (flattenTags tags parentOffset)
      = map (\<lambda>p. map_option (shiftTag parentOffset) (emitAt ?full p)) (pathsFrom (Suc ?k) tags)"
    using "2.IH"(2)[OF refl, of "pre @ [?t]"] by simp
  have sub: "map Some (case ch of None \<Rightarrow> [] | Some cs \<Rightarrow>
                if length cs > 0 then flattenTags cs (startIndex pos + parentOffset) else [])
      = map (\<lambda>p. map_option (shiftTag parentOffset) (emitAt ?full p))
          (map ((#) ?k) (case ch of None \<Rightarrow> [] | Some cs \<Rightarrow> pathsFrom 0 cs))"
  proof (cases ch)
    case None
    then show ?thesis by simp
  next
    case (Some cs)
    show ?thesis
    proof (cases "cs = []")
      case True
      with Some show ?thesis by simp
    next
      case False
      have ih: "map Some (flattenTags cs (startIndex pos + parentOffset))
          = map (\<lambda>p. map_option (shiftTag (startIndex pos + parentOffset)) (emitAt cs p))
              (pathsFrom 0 cs)"
        using "2.IH"(1)[OF refl Some, of "[]"] False by simp
      have "\<And>q. q \<in> set (pathsFrom 0 cs) \<Longrightarrow>
          map_option (shiftTag (startIndex pos + parentOffset)) (emitAt cs q)
            = map_option (shiftTag parentOffset) (emitAt ?full (?k # q))"
      proof -
        fix q assume "q \<in> set (pathsFrom 0 cs)"
        then have ne: "q \<noteq> []" by (rule pathsFrom_nonempty)
        have k: "?k < length ?full" by simp
        have nth: "?full ! ?k = ?t" by simp
        have "tagAt ?full (?k # q) = tagAt cs q"
          using tagAt_Cons_nonempty[OF ne k] Some by (simp add: kids_def)
        moreover have "ancestorOffset ?full (?k # q) = startIndex pos + ancestorOffset cs q"
          using ancestorOffset_Cons_nonempty[OF ne k] Some by (simp add: kids_def)
        ultimately show "map_option (shiftTag (startIndex pos + parentOffset)) (emitAt cs q)
            = map_option (shiftTag parentOffset) (emitAt ?full (?k # q))"
          by (cases "tagAt cs q") (simp_all add: emitAt_def shiftTag_shiftTag add.commute add.left_commute)
      qed
      then show ?thesis using Some False ih by (simp add: comp_def)
    qed
  qed
  have unf: "flattenTags (?t # tags) parentOffset =
      InnerTag name \<lparr>startIndex = startIndex pos + parentOffset,
                              endIndex = endIndex pos + parentOffset\<rparr> md None
      # (case ch of None \<Rightarrow> [] | Some cs \<Rightarrow>
                if length cs > 0 then flattenTags cs (startIndex pos + parentOffset) else [])
      @ flattenTags tags parentOffset"
    by (simp add: Let_def split: option.splits)
  have "map Some (flattenTags (?t # tags) parentOffset) =
      map_option (shiftTag parentOffset) (emitAt ?full [?k])
      # map (\<lambda>p. map_option (shiftTag parentOffset) (emitAt ?full p))
          (map ((#) ?k) (case ch of None \<Rightarrow> [] | Some cs \<Rightarrow> pathsFrom 0 cs))
      @ map (\<lambda>p. map_option (shiftTag parentOffset) (emitAt ?full p)) (pathsFrom (Suc ?k) tags)"
    unfolding unf head using sub tail by (simp only: list.map map_append)
  then show ?case by (simp only: pathsFrom.simps list.map map_append)
qed

lemma shiftTag_zero_emitAt: "map_option (shiftTag 0) (emitAt ts p) = emitAt ts p"
  by (cases "tagAt ts p") (simp_all add: emitAt_def shiftTag_shiftTag)

lemma flattenTags_children_cleared: "t \<in> set (flattenTags ts off) \<Longrightarrow> children t = None"
  by (induction ts off rule: flattenTags.induct) (auto simp: Let_def split: option.splits if_splits)

lemma tagAt_Nil [simp]: "tagAt [] p = None"
proof (cases p)
  case Nil
  then show ?thesis by simp
next
  case (Cons i q)
  then show ?thesis by (cases q) simp_all
qed

lemma tagAt_Cons_0:
  "tagAt (t # ts) (0 # q) = (if q = [] then Some t else tagAt (kids t) q)"
  by (cases q) simp_all

lemma tagAt_Cons_Suc: "tagAt (t # ts) (Suc j # q) = tagAt ts (j # q)"
  by (cases q) simp_all

lemma pathsFrom_iff:
  "p \<in> set (pathsFrom k ts) \<longleftrightarrow> (\<exists>i q. p = (k + i) # q \<and> tagAt ts (i # q) \<noteq> None)"
proof (induction k ts arbitrary: p rule: pathsFrom.induct)
  case (1 k)
  show ?case by simp
next
  case (2 k name pos md ch ts)
  let ?t = "InnerTag name pos md ch"
  have kidsP: "\<And>q. (q \<in> set (case ch of None \<Rightarrow> [] | Some cs \<Rightarrow> pathsFrom 0 cs))
                \<longleftrightarrow> (q \<noteq> [] \<and> tagAt (kids ?t) q \<noteq> None)"
  proof (cases ch)
    case None
    then show "\<And>q. (q \<in> set (case ch of None \<Rightarrow> [] | Some cs \<Rightarrow> pathsFrom 0 cs))
                \<longleftrightarrow> (q \<noteq> [] \<and> tagAt (kids ?t) q \<noteq> None)"
      by (simp add: kids_def)
  next
    case (Some cs)
    show "\<And>q. (q \<in> set (case ch of None \<Rightarrow> [] | Some cs \<Rightarrow> pathsFrom 0 cs))
                \<longleftrightarrow> (q \<noteq> [] \<and> tagAt (kids ?t) q \<noteq> None)"
    proof -
      fix q
      show "(q \<in> set (case ch of None \<Rightarrow> [] | Some cs \<Rightarrow> pathsFrom 0 cs))
                \<longleftrightarrow> (q \<noteq> [] \<and> tagAt (kids ?t) q \<noteq> None)"
        using "2.IH"(1)[OF Some, of q] Some by (cases q) (auto simp: kids_def)
    qed
  qed
  have tailP: "p \<in> set (pathsFrom (Suc k) ts)
                \<longleftrightarrow> (\<exists>j q. p = (k + Suc j) # q \<and> tagAt ts (j # q) \<noteq> None)"
    using "2.IH"(2)[of p] by simp
  have "(\<exists>i q. p = (k + i) # q \<and> tagAt (?t # ts) (i # q) \<noteq> None)
        \<longleftrightarrow> (\<exists>q. p = k # q \<and> tagAt (?t # ts) (0 # q) \<noteq> None)
            \<or> (\<exists>j q. p = (k + Suc j) # q \<and> tagAt (?t # ts) (Suc j # q) \<noteq> None)"
    (is "?L \<longleftrightarrow> ?R")
  proof
    assume ?L
    then obtain i q where iq: "p = (k + i) # q" "tagAt (?t # ts) (i # q) \<noteq> None" by blast
    show ?R
    proof (cases i)
      case 0
      with iq show ?thesis by auto
    next
      case (Suc j)
      with iq show ?thesis by blast
    qed
  next
    assume ?R
    then show ?L by (metis add_0_right)
  qed
  also have "\<dots> \<longleftrightarrow> p = [k] \<or> (\<exists>q. p = k # q \<and> q \<noteq> [] \<and> tagAt (kids ?t) q \<noteq> None)
            \<or> (\<exists>j q. p = (k + Suc j) # q \<and> tagAt ts (j # q) \<noteq> None)"
    by (auto simp: tagAt_Cons_0 tagAt_Cons_Suc)
  also have "\<dots> \<longleftrightarrow> p \<in> set (pathsFrom k (?t # ts))"
    using kidsP tailP by auto
  finally show ?case by simp
qed

lemma pathsFrom_0_iff: "p \<in> set (pathsFrom 0 ts) \<longleftrightarrow> tagAt ts p \<noteq> None"
proof (cases p)
  case Nil
  then show ?thesis by (simp add: pathsFrom_iff)
next
  case (Cons i q)
  then show ?thesis by (simp add: pathsFrom_iff)
qed

lemma pathsFrom_hd: "p \<in> set (pathsFrom k ts) \<Longrightarrow> \<exists>i q. p = (k + i) # q"
  by (auto simp: pathsFrom_iff)

lemma distinct_pathsFrom: "distinct (pathsFrom k ts)"
proof (induction k ts rule: pathsFrom.induct)
  case (1 k)
  show ?case by simp
next
  case (2 k name pos md ch ts)
  let ?kp = "case ch of None \<Rightarrow> [] | Some cs \<Rightarrow> pathsFrom 0 cs"
  have d1: "distinct ?kp" using "2.IH"(1) by (cases ch) auto
  have ne: "[] \<notin> set ?kp"
    by (cases ch) (auto simp: pathsFrom_iff)
  have d2: "distinct (map ((#) k) ?kp)" using d1 by (simp add: distinct_map)
  have a: "[k] \<notin> set (map ((#) k) ?kp)" using ne by auto
  have b: "[k] \<notin> set (pathsFrom (Suc k) ts)" by (auto simp: pathsFrom_iff)
  have c: "set (map ((#) k) ?kp) \<inter> set (pathsFrom (Suc k) ts) = {}"
    by (auto simp: pathsFrom_iff)
  show ?case using d2 a b c "2.IH"(2) by simp
qed

text \<open>
  Claim C4, as amended. For every list of possibly nested inner tags, \<open>flattenTags\<close> (root
  offset 0) emits every tag of the forest exactly once, in depth-first pre-order (each
  parent, then its flattened subtree, then its later siblings); the start and end offsets
  of every emitted tag are its own relative offsets plus the sum of the \<^emph>\<open>relative\<close>
  start offsets of its ancestors, which is the absolute start offset of its parent; every
  emitted tag has no children.
\<close>

theorem flattenTags_depth_first_offsets:
  "map Some (flattenTags tags 0) = map (emitAt tags) (pathsFrom 0 tags)
   \<and> set (pathsFrom 0 tags) = {p. tagAt tags p \<noteq> None}
   \<and> distinct (pathsFrom 0 tags)
   \<and> (\<forall>t \<in> set (flattenTags tags 0). children t = None)"
proof (intro conjI)
  show "map Some (flattenTags tags 0) = map (emitAt tags) (pathsFrom 0 tags)"
    using flattenTags_paths_gen[of tags 0 "[]"] by (simp add: shiftTag_zero_emitAt)
  show "set (pathsFrom 0 tags) = {p. tagAt tags p \<noteq> None}"
    using pathsFrom_0_iff by blast
  show "distinct (pathsFrom 0 tags)"
    by (rule distinct_pathsFrom)
  show "\<forall>t \<in> set (flattenTags tags 0). children t = None"
    by (auto dest: flattenTags_children_cleared)
qed

theorem flattenTags_depth_first_offsets_witness:
  "map Some (flattenTags nestedFixture 0) = map (emitAt nestedFixture) (pathsFrom 0 nestedFixture)
   \<and> pathsFrom 0 nestedFixture = [[0], [0, 0], [0, 0, 0], [0, 1]]
   \<and> map (\<lambda>t. (startIndex (InnerTag.position t), endIndex (InnerTag.position t)))
         (flattenTags nestedFixture 0) = [(10, 50), (15, 35), (17, 23), (40, 45)]
   \<and> map children (flattenTags nestedFixture 0) = [None, None, None, None]"
  using flattenTags_depth_first_offsets[of nestedFixture]
  by (simp add: nestedFixture_def)

text \<open>
  Claim C4 as worded shifts a tag by the sum of its ancestors' \<^emph>\<open>absolute\<close> start
  offsets. On the three-level fixture of the repository's test the underline tag has
  ancestors with absolute starts 10 and 15 and relative start 2: the flattener gives it
  start 17 (as the test expects), the wording gives 27.
\<close>

theorem flattenTags_absolute_sum_counterexample:
  "map (\<lambda>t. startIndex (InnerTag.position t)) (flattenTags nestedFixture 0) = [10, 15, 17, 40]
   \<and> map (\<lambda>t. startIndex (InnerTag.position t)) (claimedFlatten nestedFixture 0) = [10, 15, 27, 40]
   \<and> flattenTags nestedFixture 0 \<noteq> claimedFlatten nestedFixture 0"
  by (simp add: nestedFixture_def)

section \<open>Properties of the selection resolver\<close>

lemma nodeAt_snoc:
  "r \<noteq> [] \<Longrightarrow> nodeAt tree r = Some el \<Longrightarrow>
   nodeAt tree (r @ [i]) = (if i < length (childNodes el) then Some (childNodes el ! i) else None)"
proof (induction tree r rule: nodeAt.induct)
  case (1 ns)
  then show ?case by simp
next
  case (2 ns a)
  then show ?case by (auto split: if_splits)
next
  case (3 ns a j p)
  then show ?case by (auto split: if_splits)
qed

lemma indexOf_nonneg_iff: "0 \<le> indexOf xs x \<longleftrightarrow> x \<in> set xs"
  by (induction xs) (auto simp: Let_def)

lemma indexOf_notin: "x \<notin> set xs \<Longrightarrow> indexOf xs x = -1"
  by (induction xs) (auto simp: Let_def)

lemma indexOf_append:
  "indexOf (xs @ ys) x =
     (if x \<in> set xs then indexOf xs x
      else if x \<in> set ys then int (length xs) + indexOf ys x else -1)"
proof (induction xs)
  case Nil
  then show ?case by (auto simp: indexOf_notin)
next
  case (Cons a xs)
  then show ?case
    using indexOf_nonneg_iff[of xs x] indexOf_nonneg_iff[of ys x]
    by (auto simp: Let_def)
qed

lemma indexOf_map_inj: "inj f \<Longrightarrow> indexOf (map f xs) (f x) = indexOf xs x"
  by (induction xs) (auto simp: Let_def dest: injD)

lemma indexOf_filter_upt:
  "i < n \<Longrightarrow> P i \<Longrightarrow> indexOf (filter P [0..<n]) i = int (length (filter P [0..<i]))"
proof (induction n)
  case 0
  then show ?case by simp
next
  case (Suc n)
  show ?case
  proof (cases "i = n")
    case True
    with Suc.prems show ?thesis by (simp add: indexOf_append)
  next
    case False
    with Suc.prems have "i < n" by simp
    with Suc show ?thesis by (simp add: indexOf_append)
  qed
qed

lemma take_filter_upt:
  "i \<le> n \<Longrightarrow> take (length (filter P [0..<i])) (filter P [0..<n]) = filter P [0..<i]"
proof -
  assume "i \<le> n"
  then have "[0..<n] = [0..<i] @ [i..<n]"
    by (metis le_add_diff_inverse upt_add_eq_append zero_le)
  then show ?thesis by simp
qed

lemma length_filter_nth_upt:
  "i \<le> length cs \<Longrightarrow> length (filter (\<lambda>m. Q (cs ! m)) [0..<i]) = length (filter Q (take i cs))"
proof -
  assume le: "i \<le> length cs"
  have "take i cs = map ((!) cs) [0..<i]"
    using le by (auto intro!: nth_equalityI)
  then show ?thesis by (simp add: filter_map comp_def)
qed

lemma getOffsetInLumiSpan_general:
  assumes r: "r \<noteq> []" and el: "nodeAt tree r = Some el" and isel: "isElement el"
    and i: "i < length (childNodes el)" and ch: "isElement (childNodes el ! i)"
  shows "getOffsetInLumiSpan k tree (r @ [i, j]) =
           int (length (filter isElement (take i (childNodes el))))
           - int (length (filter (isMarkerNode k) (take i (childNodes el))))"
proof -
  let ?cs = "childNodes el"
  let ?P = "\<lambda>m. isElement (?cs ! m)"
  let ?f = "\<lambda>m. r @ [m]"
  have at_i: "nodeAt tree (r @ [i]) = Some (?cs ! i)"
    using nodeAt_snoc[OF r el, of i] i by simp
  have p1: "parentElement tree (r @ [i, j]) = Some (r @ [i])"
    using at_i ch by (simp add: parentElement_def butlast_append)
  have p2: "parentElement tree (r @ [i]) = Some r"
    using el isel by (simp add: parentElement_def)
  have kids: "children_node tree r = map ?f (filter ?P [0..<length ?cs])"
    using el by (simp add: children_node_def)
  have inj: "inj ?f" by (simp add: inj_def)
  have idx: "indexOf (children_node tree r) (r @ [i]) = int (length (filter ?P [0..<i]))"
    unfolding kids using indexOf_map_inj[OF inj, of _ i] indexOf_filter_upt[of i "length ?cs" ?P] i ch
    by simp
  have sl: "slice0 (children_node tree r) (int (length (filter ?P [0..<i]))) = map ?f (filter ?P [0..<i])"
    unfolding kids slice0_def using take_filter_upt[of i "length ?cs" ?P] i
    by (simp add: take_map)
  have mark: "\<And>m. m < length ?cs \<Longrightarrow> isInlineTag k tree (r @ [m]) = isMarkerNode k (?cs ! m)"
    using nodeAt_snoc[OF r el] by (simp add: isInlineTag_def isMarkerNode_def)
  have "filter (isInlineTag k tree) (map ?f (filter ?P [0..<i]))
        = map ?f (filter (\<lambda>m. isMarkerNode k (?cs ! m)) (filter ?P [0..<i]))"
    using mark i by (auto simp: filter_map comp_def intro!: filter_cong arg_cong[where f="map ?f"])
  also have "filter (\<lambda>m. isMarkerNode k (?cs ! m)) (filter ?P [0..<i])
        = filter (\<lambda>m. isMarkerNode k (?cs ! m)) [0..<i]"
  proof -
    have "\<And>n. isMarkerNode k n \<Longrightarrow> isElement n"
      by (case_tac n) (auto simp: isMarkerNode_def)
    then show ?thesis by (auto intro!: filter_cong)
  qed
  finally have cnt: "length (filter (isInlineTag k tree) (map ?f (filter ?P [0..<i])))
        = length (filter (isMarkerNode k) (take i ?cs))"
    using length_filter_nth_upt[of i ?cs "isMarkerNode k"] i by simp
  have elems: "length (filter ?P [0..<i]) = length (filter isElement (take i ?cs))"
    using length_filter_nth_upt[of i ?cs isElement] i by simp
  have "getOffsetInLumiSpan k tree (r @ [i, j]) =
          int (length (filter ?P [0..<i]))
          - int (length (filter (isInlineTag k tree)
                   (slice0 (children_node tree r) (int (length (filter ?P [0..<i]))))))"
    by (simp only: getOffsetInLumiSpan_def p1 p2 option.case Let_def idx)
  also have "\<dots> = int (length (filter ?P [0..<i]))
          - int (length (filter (isMarkerNode k) (take i ?cs)))"
    by (simp only: sl cnt)
  finally show ?thesis by (simp only: elems)
qed

text \<open>
  Claim C6. Let a selection boundary be a text node inside a character container that is
  the \<open>i\<close>-th child node of a renderer element. The offset computed for it is the index
  of the container among the renderer's element children (the number of elements among
  the child nodes before it) minus the number of citation or footnote marker elements
  before it.
\<close>

theorem getOffsetInLumiSpan_text_space:
  assumes "r \<noteq> []" and "nodeAt tree r = Some el" and "isElement el"
    and "i < length (childNodes el)" and "isElement (childNodes el ! i)"
  shows "getOffsetInLumiSpan k tree (r @ [i, j]) =
           int (length (filter isElement (take i (childNodes el))))
           - int (length (filter (isMarkerNode k) (take i (childNodes el))))"
  using assms by (rule getOffsetInLumiSpan_general)

theorem getOffsetInLumiSpan_text_space_witness:
  "[0, 0] \<noteq> ([] :: nat list)
   \<and> nodeAt inlineFixture [0, 0] = Some inlineRenderer
   \<and> isElement inlineRenderer
   \<and> 7 < length (childNodes inlineRenderer)
   \<and> isElement (childNodes inlineRenderer ! 7)
   \<and> length (filter isElement (take 7 (childNodes inlineRenderer))) = 7
   \<and> length (filter (isMarkerNode testConstants) (take 7 (childNodes inlineRenderer))) = 2
   \<and> getOffsetInLumiSpan testConstants inlineFixture ([0, 0] @ [7, 0]) = 5"
proof -
  have h1: "[0, 0] \<noteq> ([] :: nat list)" by simp
  have h2: "nodeAt inlineFixture [0, 0] = Some inlineRenderer" by code_simp
  have h3: "isElement inlineRenderer" by code_simp
  have h4: "7 < length (childNodes inlineRenderer)" by code_simp
  have h5: "isElement (childNodes inlineRenderer ! 7)" by code_simp
  have v1: "length (filter isElement (take 7 (childNodes inlineRenderer))) = 7" by code_simp
  have v2: "length (filter (isMarkerNode testConstants) (take 7 (childNodes inlineRenderer))) = 2"
    by code_simp
  have "getOffsetInLumiSpan testConstants inlineFixture ([0, 0] @ [7, 0]) = 5"
    using getOffsetInLumiSpan_text_space[OF h1 h2 h3 h4 h5, of testConstants 0] v1 v2 by simp
  with h1 h2 h3 h4 h5 v1 v2 show ?thesis by blast
qed

text \<open>
  Claim C2, evaluated on the multi-unit fixture of the repository's test: the selection
  starts in the first unit and ends in the third, and the unit strictly in between, whose
  text has 13 characters, is reported with the range 0 to 14: the default end offset is
  already the text length, and one more is added to it.
\<close>

theorem getSelectionInfo_middle_unit_overshoot:
  "getSelectionInfo testConstants multiSpanFixture multiSpanSelection =
     Inr (Some \<lparr>selectedText = ''part. Second part. Third'', parentSpan = [0, 0, 6],
           highlightSelection =
             [HighlightSelection ''test-span-1'' (Some \<lparr>startIndex = 6, endIndex = 13\<rparr>),
              HighlightSelection ''test-span-2'' (Some \<lparr>startIndex = 0, endIndex = 14\<rparr>),
              HighlightSelection ''test-span-3'' (Some \<lparr>startIndex = 0, endIndex = 5\<rparr>)]\<rparr>)
   \<and> length (textContent (multiSpanFixture ! 1)) = 13"
  by code_simp

section \<open>Properties of the compositor\<close>

subsection \<open>The marking pass\<close>

lemma length_markAt [simp]: "length (markAt f i cs) = length cs"
  by (simp add: markAt_def)

lemma length_fold_markAt [simp]: "length (fold (markAt f) js cs) = length cs"
  by (induction js arbitrary: cs) simp_all

lemma nth_markAt:
  "n < length cs \<Longrightarrow> markAt f i cs ! n = (if i = int n then f (cs ! n) else cs ! n)"
  by (auto simp: markAt_def nth_list_update)

lemma nth_fold_markAt:
  "n < length cs \<Longrightarrow> distinct js \<Longrightarrow>
   fold (markAt f) js cs ! n = (if int n \<in> set js then f (cs ! n) else cs ! n)"
proof (induction js arbitrary: cs)
  case Nil
  then show ?case by simp
next
  case (Cons j js)
  then show ?case by (auto simp: nth_markAt)
qed

lemma length_markTag [simp]: "length (markTag t cs) = length cs"
  by (simp add: markTag_def)

lemma length_markHighlight [simp]: "length (markHighlight N h cs) = length cs"
  by (simp add: markHighlight_def)

lemma nth_markTag:
  "n < length cs \<Longrightarrow> markTag t cs ! n = (if covers (int n) t then tagUpdate t (cs ! n) else cs ! n)"
  by (auto simp: markTag_def nth_fold_markAt covers_def)

lemma nth_markHighlight:
  "n < length cs \<Longrightarrow>
   markHighlight N h cs ! n = (if coversH N (int n) h then highlightUpdate h (cs ! n) else cs ! n)"
  by (auto simp: markHighlight_def nth_fold_markAt coversH_def)

lemma length_fold_markTag [simp]: "length (fold markTag ts cs) = length cs"
  by (induction ts arbitrary: cs) simp_all

lemma length_fold_markHighlight [simp]: "length (fold (markHighlight N) hs cs) = length cs"
  by (induction hs arbitrary: cs) simp_all

lemma nth_fold_markTag:
  "n < length cs \<Longrightarrow>
   fold markTag ts cs ! n = fold tagUpdate (filter (covers (int n)) ts) (cs ! n)"
  by (induction ts arbitrary: cs) (simp_all add: nth_markTag)

lemma nth_fold_markHighlight:
  "n < length cs \<Longrightarrow>
   fold (markHighlight N) hs cs ! n = fold highlightUpdate (filter (coversH N (int n)) hs) (cs ! n)"
  by (induction hs arbitrary: cs) (simp_all add: nth_markHighlight)

lemma length_formattingCounters [simp]:
  "length (formattingCounters spanText tags hs) = length spanText"
  by (simp add: formattingCounters_def)

lemma nth_formattingCounters:
  "n < length spanText \<Longrightarrow>
   formattingCounters spanText tags hs ! n = pointCounter (length spanText) tags hs (int n)"
  by (simp add: formattingCounters_def pointCounter_def nth_fold_markHighlight nth_fold_markTag)

lemma dom_fold_tagUpdate:
  "dom (fold tagUpdate ts m) = dom m \<union> (\<lambda>t. TagKey (tagName t)) ` set ts"
  by (induction ts arbitrary: m) (auto simp: tagUpdate_def)

lemma dom_fold_highlightUpdate:
  "dom (fold highlightUpdate hs m) = dom m \<union> (if hs = [] then {} else {GENERAL_HIGHLIGHT_KEY})"
  by (induction hs arbitrary: m) (auto simp: highlightUpdate_def)

lemma dom_pointCounter:
  "dom (pointCounter N tags hs i) =
     (\<lambda>t. TagKey (tagName t)) ` {t \<in> set tags. covers i t}
     \<union> (if \<exists>h \<in> set hs. coversH N i h then {GENERAL_HIGHLIGHT_KEY} else {})"
  by (auto simp: pointCounter_def dom_fold_tagUpdate dom_fold_highlightUpdate filter_empty_conv)

lemma fold_highlightUpdate_last:
  "hs \<noteq> [] \<Longrightarrow> fold highlightUpdate hs m GENERAL_HIGHLIGHT_KEY = Some (highlightEntry (last hs))"
  by (induction hs arbitrary: m) (auto simp: highlightUpdate_def)

lemma fold_highlightUpdate_other:
  "k \<noteq> GENERAL_HIGHLIGHT_KEY \<Longrightarrow> fold highlightUpdate hs m k = m k"
  by (induction hs arbitrary: m) (auto simp: highlightUpdate_def)












subsection \<open>Overlapping highlights\<close>

text \<open>
  Claim C3, as amended. The counter has one entry for all highlights, under the key
  \<^verbatim>\<open>general_highlight_key\<close>, and every covering highlight overwrites it: for every
  character index covered by one or more highlights the entry is the colour and metadata
  of the last covering highlight of the list, and of no other.
\<close>

theorem overlapping_highlights_last_wins:
  assumes "i < length spanText"
    and "filter (coversH (length spanText) (int i)) hs \<noteq> []"
  shows "(formattingCounters spanText tags hs ! i) GENERAL_HIGHLIGHT_KEY
           = Some (highlightEntry (last (filter (coversH (length spanText) (int i)) hs)))"
  using assms by (simp add: nth_formattingCounters pointCounter_def fold_highlightUpdate_last)

theorem overlapping_highlights_last_wins_witness:
  "(0::nat) < length ''ab''
   \<and> filter (coversH (length ''ab'') (int 0)) [yellowHighlight, greenHighlight]
       = [yellowHighlight, greenHighlight]
   \<and> (formattingCounters ''ab'' [] [yellowHighlight, greenHighlight] ! 0) GENERAL_HIGHLIGHT_KEY
       = Some (highlightEntry greenHighlight)"
proof -
  have h1: "(0::nat) < length ''ab''" by simp
  have f: "filter (coversH (length ''ab'') (int 0)) [yellowHighlight, greenHighlight]
       = [yellowHighlight, greenHighlight]"
    by (simp add: coversH_def yellowHighlight_def greenHighlight_def highlightStart_def
          highlightEnd_def)
  then have h2: "filter (coversH (length ''ab'') (int 0)) [yellowHighlight, greenHighlight] \<noteq> []"
    by simp
  from overlapping_highlights_last_wins[OF h1 h2, of "[]"] f h1 show ?thesis by simp
qed

text \<open>
  Claim C3 as worded asks for the colours of all covering highlights. With a yellow and
  then a green highlight over the first character, the entry of that character is the
  green colour alone.
\<close>

theorem overlapping_highlights_counterexample:
  "coversH (length ''ab'') 0 yellowHighlight
   \<and> coversH (length ''ab'') 0 greenHighlight
   \<and> (formattingCounters ''ab'' [] [yellowHighlight, greenHighlight] ! 0) GENERAL_HIGHLIGHT_KEY
       = Some [COLOR_HIGHLIGHT_KEY \<mapsto> ''green'']"
  by (simp add: nth_formattingCounters pointCounter_def coversH_def yellowHighlight_def
        greenHighlight_def highlightStart_def highlightEnd_def highlightUpdate_def
        highlightEntry_def)

subsection \<open>The insertion map\<close>

lemma findIndex_ge: "-1 \<le> findIndex P xs"
  by (induction xs) (auto simp: Let_def)

lemma findIndex_none_iff: "findIndex P xs = -1 \<longleftrightarrow> (\<forall>x \<in> set xs. \<not> P x)"
proof (induction xs)
  case Nil
  show ?case by simp
next
  case (Cons a xs)
  then show ?case using findIndex_ge[of P xs] by (auto simp: Let_def)
qed

lemma indexOf_none_iff: "indexOf xs x = -1 \<longleftrightarrow> x \<notin> set xs"
  using indexOf_nonneg_iff[of xs x] indexOf_notin[of x xs] by auto

lemma referenceCitations_empty_iff:
  "referenceCitations refs ident = [] \<longleftrightarrow>
     \<not> (\<exists>r \<in> set refs. id_reference r \<in> set (map trim (splitOn CHR '','' ident)))"
  by (auto simp: referenceCitations_def Let_def findIndex_none_iff)

lemma unresolved_no_template:
  assumes "\<not> resolves viz t"
  shows "insertionTemplate viz t = None"
proof (cases "truthyId t")
  case None
  then show ?thesis by (simp add: insertionTemplate_def)
next
  case (Some ident)
  then have md: "InnerTag.metadata t ''id'' = Some ident"
    by (auto simp: truthyId_def split: option.splits if_splits)
  show ?thesis
  proof (cases "tagName t = REFERENCE")
    case True
    show ?thesis
    proof (cases "references viz")
      case None
      with True show ?thesis by (simp add: insertionTemplate_def)
    next
      case (Some refs)
      with assms md True have "referenceCitations refs ident = []"
        by (simp add: resolves_def referenceCitations_empty_iff)
      with True Some \<open>truthyId t = Some ident\<close> show ?thesis
        by (simp add: insertionTemplate_def)
    qed
  next
    case notref: False
    show ?thesis
    proof (cases "tagName t = FOOTNOTE")
      case True
      show ?thesis
      proof (cases "footnotes viz")
        case None
        with True show ?thesis by (simp add: insertionTemplate_def)
      next
        case (Some fns)
        with assms md True have "findIndex (\<lambda>note. id_footnote note = ident) fns = -1"
          by (auto simp: resolves_def findIndex_none_iff)
        with True Some \<open>truthyId t = Some ident\<close> show ?thesis
          by (simp add: insertionTemplate_def)
      qed
    next
      case notfn: False
      show ?thesis
      proof (cases "tagName t = SPAN_REFERENCE")
        case True
        show ?thesis
        proof (cases "referencedSpans viz")
          case None
          with True show ?thesis by (simp add: insertionTemplate_def)
        next
          case (Some spans)
          with assms md True have "indexOf (map id_span spans) ident = -1"
            by (auto simp: resolves_def indexOf_none_iff)
          with True Some \<open>truthyId t = Some ident\<close> show ?thesis
            by (simp add: insertionTemplate_def)
        qed
      next
        case False
        with notref notfn show ?thesis by (simp add: insertionTemplate_def)
      qed
    qed
  qed
qed

lemma createInsertionsMap_skip:
  "insertionTemplate viz t = None \<Longrightarrow>
   createInsertionsMap viz (pre @ t # post) = createInsertionsMap viz (pre @ post)"
  by (simp add: createInsertionsMap_def insertTag_def)

subsection \<open>The rendering loop\<close>

lemma pendingEquation_nonempty_math:
  "pendingEquation txt cs n \<noteq> [] \<Longrightarrow> mathAt cs n"
  by (cases n) (auto simp: continuesRun_def mathAt_def split: if_splits)

lemma partStep_characterUnits:
  assumes "fst st = pendingEquation txt cs n"
  shows "partStep txt cs ins n st =
           (pendingEquation txt cs (Suc n),
            snd st @ [insertionsAt ins (int n) @ characterUnits txt cs n])"
proof (cases "mathAt cs n")
  case True
  show ?thesis
  proof (cases "continuesRun txt cs n")
    case c: True
    with True assms show ?thesis
      by (auto simp: partStep_def Let_def characterUnits_def continuesRun_def mathAt_def hasKind_def)
  next
    case c: False
    with True assms show ?thesis
      by (auto simp: partStep_def Let_def characterUnits_def continuesRun_def mathAt_def
            hasKind_def renderEquation_def)
  qed
next
  case False
  then have "pendingEquation txt cs n = []"
    using pendingEquation_nonempty_math by blast
  moreover from False have "\<not> continuesRun txt cs n" by (simp add: continuesRun_def)
  ultimately show ?thesis using False assms
    by (auto simp: partStep_def Let_def characterUnits_def mathAt_def hasKind_def)
qed

lemma fold_partStep:
  "fold (partStep txt cs ins) [0..<n] ([], []) =
     (pendingEquation txt cs n,
      map (\<lambda>i. insertionsAt ins (int i) @ characterUnits txt cs i) [0..<n])"
proof (induction n)
  case 0
  show ?case by simp
next
  case (Suc n)
  show ?case
    by (simp add: Suc.IH partStep_characterUnits)
qed

lemma partsPerIndex_structure:
  "partsPerIndex txt cs ins =
     map (\<lambda>i. insertionsAt ins (int i) @ characterUnits txt cs i) [0..<length txt]"
  by (simp add: partsPerIndex_def fold_partStep)

lemma insertionsAt_fold_insertTag:
  "insertionsAt (fold (insertTag viz) tags m) i = insertionsAt m i @ anchoredAt viz tags i"
proof (induction tags arbitrary: m)
  case Nil
  show ?case by (simp add: anchoredAt_def)
next
  case (Cons t tags)
  have step: "insertionsAt (insertTag viz t m) i = insertionsAt m i @ anchoredAt viz [t] i"
    by (auto simp: insertTag_def pushInsertion_def insertionsAt_def anchoredAt_def
             split: option.splits)
  have app: "anchoredAt viz (t # tags) i = anchoredAt viz [t] i @ anchoredAt viz tags i"
    by (simp add: anchoredAt_def)
  show ?case by (simp add: Cons.IH step app)
qed

lemma insertionsAt_createInsertionsMap:
  "insertionsAt (createInsertionsMap viz tags) i = anchoredAt viz tags i"
proof -
  have "insertionsAt (Map.empty :: int \<rightharpoonup> Template list) i = []"
    by (simp add: insertionsAt_def)
  then show ?thesis
    by (simp add: createInsertionsMap_def insertionsAt_fold_insertTag)
qed

lemma pendingEquation_run:
  assumes "a = 0 \<or> \<not> continuesRun txt cs (a - 1)"
    and "\<forall>j. a \<le> j \<and> j < i \<longrightarrow> continuesRun txt cs j"
    and "a \<le> i"
  shows "pendingEquation txt cs i = map ((!) txt) [a..<i]"
  using assms(3,2)
proof (induction i rule: dec_induct)
  case base
  from assms(1) show ?case by (cases a) auto
next
  case (step n)
  then show ?case by simp
qed

lemma math_run_general:
  assumes excl: "\<forall>i < length txt. \<not> (hasKind cs i MATH \<and> hasKind cs i MATH_DISPLAY)"
    and k: "k = MATH \<or> k = MATH_DISPLAY"
    and ab: "a \<le> b" and bN: "b < length txt"
    and run: "\<forall>i. a \<le> i \<and> i \<le> b \<longrightarrow> hasKind cs i k"
    and maxl: "a = 0 \<or> \<not> hasKind cs (a - 1) k"
    and maxr: "b + 1 = length txt \<or> \<not> hasKind cs (b + 1) k"
  shows "(\<forall>i. a \<le> i \<and> i < b \<longrightarrow> partsPerIndex txt cs ins ! i = insertionsAt ins (int i))
       \<and> partsPerIndex txt cs ins ! b =
           insertionsAt ins (int b)
           @ [EquationTemplate (map ((!) txt) [a..<Suc b]) (k = MATH_DISPLAY)]"
proof -
  have check: "\<And>i. a \<le> i \<Longrightarrow> i \<le> b \<Longrightarrow>
      (if hasKind cs i MATH then MATH else MATH_DISPLAY) = k"
  proof -
    fix i assume "a \<le> i" "i \<le> b"
    with run have h: "hasKind cs i k" by simp
    from \<open>i \<le> b\<close> bN excl have "\<not> (hasKind cs i MATH \<and> hasKind cs i MATH_DISPLAY)" by simp
    with h k show "(if hasKind cs i MATH then MATH else MATH_DISPLAY) = k" by auto
  qed
  have math: "\<And>i. a \<le> i \<Longrightarrow> i \<le> b \<Longrightarrow> mathAt cs i"
    using run k by (auto simp: mathAt_def)
  have cont: "\<And>i. a \<le> i \<Longrightarrow> i < b \<Longrightarrow> continuesRun txt cs i"
  proof -
    fix i assume i: "a \<le> i" "i < b"
    then have "hasKind cs (i + 1) k" using run by simp
    with i math[of i] check[of i] bN show "continuesRun txt cs i"
      by (simp add: continuesRun_def)
  qed
  have stop: "\<not> continuesRun txt cs b"
    using maxr check[of b] ab by (auto simp: continuesRun_def)
  have start: "a = 0 \<or> \<not> continuesRun txt cs (a - 1)"
  proof (cases "a = 0")
    case True
    then show ?thesis by simp
  next
    case False
    with maxl have nk: "\<not> hasKind cs (a - 1) k" by simp
    from False ab bN have lt: "a - 1 < length txt" by simp
    have ha: "hasKind cs a k" using run ab by simp
    have ea: "\<not> (hasKind cs a MATH \<and> hasKind cs a MATH_DISPLAY)" using excl ab bN by simp
    have "\<not> hasKind cs a (if hasKind cs (a - 1) MATH then MATH else MATH_DISPLAY)
          \<or> \<not> mathAt cs (a - 1)"
      using nk ha ea k by (auto simp: mathAt_def)
    with False show ?thesis by (auto simp: continuesRun_def)
  qed
  have pend: "pendingEquation txt cs b = map ((!) txt) [a..<b]"
    using pendingEquation_run[OF start _ ab] cont by simp
  have disp: "hasKind cs b MATH_DISPLAY = (k = MATH_DISPLAY)"
  proof -
    have "hasKind cs b k" using run ab by simp
    moreover have "\<not> (hasKind cs b MATH \<and> hasKind cs b MATH_DISPLAY)" using excl bN by simp
    ultimately show ?thesis using k by auto
  qed
  have inner: "\<forall>i. a \<le> i \<and> i < b \<longrightarrow> partsPerIndex txt cs ins ! i = insertionsAt ins (int i)"
  proof (intro allI impI)
    fix i assume i: "a \<le> i \<and> i < b"
    then have "i < length txt" using bN by simp
    moreover have "characterUnits txt cs i = []"
      using i math[of i] cont[of i] by (simp add: characterUnits_def)
    ultimately show "partsPerIndex txt cs ins ! i = insertionsAt ins (int i)"
      by (simp add: partsPerIndex_structure)
  qed
  have "characterUnits txt cs b = [EquationTemplate (map ((!) txt) [a..<Suc b]) (k = MATH_DISPLAY)]"
    using math[of b] stop ab pend disp by (simp add: characterUnits_def)
  then have last: "partsPerIndex txt cs ins ! b =
           insertionsAt ins (int b)
           @ [EquationTemplate (map ((!) txt) [a..<Suc b]) (k = MATH_DISPLAY)]"
    using bN by (simp add: partsPerIndex_structure)
  from inner last show ?thesis by blast
qed

lemma hasKind_formattingCounters:
  "i < length txt \<Longrightarrow>
   hasKind (formattingCounters txt tags hs) i k \<longleftrightarrow> (\<exists>t \<in> set tags. tagName t = k \<and> covers (int i) t)"
proof -
  assume i: "i < length txt"
  have "hasKind (formattingCounters txt tags hs) i k
          \<longleftrightarrow> TagKey k \<in> dom (pointCounter (length txt) tags hs (int i))"
    using i by (simp add: hasKind_def nth_formattingCounters domIff)
  also have "\<dots> \<longleftrightarrow> (\<exists>t \<in> set tags. tagName t = k \<and> covers (int i) t)"
    by (auto simp: dom_pointCounter)
  finally show ?thesis .
qed

lemma calculateRenderedContent_slow:
  assumes sp: "span viz = Some sp"
    and ne: "createInsertionsMap viz (innerTags sp) \<noteq> Map.empty"
  shows "calculateRenderedContent viz =
     RendererElement
       (concat (map (\<lambda>i. anchoredAt viz (innerTags sp) (int i)
                          @ characterUnits (text_span sp)
                              (formattingCounters (text_span sp) (flattenTags (innerTags sp) 0)
                                 (case highlights viz of None \<Rightarrow> [] | Some hs \<Rightarrow> hs)) i)
                  [0..<length (text_span sp)])
        @ anchoredAt viz (innerTags sp) (int (length (text_span sp))))"
  using sp ne
  by (simp add: calculateRenderedContent_def Let_def partsPerIndex_structure
        insertionsAt_createInsertionsMap)

lemma anchoredAt_skip:
  "insertionTemplate viz t = None \<Longrightarrow>
   anchoredAt viz (pre @ t # post) i = anchoredAt viz (pre @ post) i"
  by (simp add: anchoredAt_def)

lemma reference_like_character_empty:
  assumes kind: "tagName t \<in> {REFERENCE, SPAN_REFERENCE, FOOTNOTE}"
    and mem: "t \<in> set tags" and n: "n < length txt" and cov: "covers (int n) t"
  shows "renderFormattedCharacter c ([CharacterKey \<mapsto> Map.empty] ++ (formattingCounters txt tags hs ! n))
           = EmptyTemplate"
proof -
  have "hasKind (formattingCounters txt tags hs) n (tagName t)"
    using mem n cov by (auto simp: hasKind_formattingCounters)
  then have "hasClass ([CharacterKey \<mapsto> Map.empty] ++ (formattingCounters txt tags hs ! n)) (tagName t)"
    by (auto simp: hasKind_def hasClass_def map_add_def split: option.splits)
  with kind show ?thesis by (auto simp: renderFormattedCharacter_def)
qed

lemma flattenTags_append:
  "flattenTags (xs @ ys) off = flattenTags xs off @ flattenTags ys off"
  by (induction xs off rule: flattenTags.induct) (simp_all add: Let_def)

lemma flattenTags_top_level_mem:
  "shiftTag 0 t \<in> set (flattenTags (pre @ t # post) 0)"
  by (cases t) (simp add: flattenTags_append shiftTag_def Let_def)

lemma covers_shiftTag_zero: "covers i (shiftTag 0 t) = covers i t"
  by (simp add: covers_def shiftTag_def)

lemma tagName_shiftTag: "tagName (shiftTag d t) = tagName t"
  by (simp add: shiftTag_def)

lemma calculateRenderedContent_tagged:
  assumes sp: "span viz = Some sp"
    and ne: "flattenTags (innerTags sp) 0 \<noteq> []"
  shows "calculateRenderedContent viz =
     RendererElement
       (concat (map (\<lambda>i. anchoredAt viz (innerTags sp) (int i)
                          @ characterUnits (text_span sp)
                              (formattingCounters (text_span sp) (flattenTags (innerTags sp) 0)
                                 (case highlights viz of None \<Rightarrow> [] | Some hs \<Rightarrow> hs)) i)
                  [0..<length (text_span sp)])
        @ anchoredAt viz (innerTags sp) (int (length (text_span sp))))"
  using sp ne
  by (simp add: calculateRenderedContent_def Let_def partsPerIndex_structure
        insertionsAt_createInsertionsMap)

lemma reference_like_characterUnits:
  assumes kind: "tagName t \<in> {REFERENCE, SPAN_REFERENCE, FOOTNOTE}"
    and n: "n < length txt" and cov: "covers (int n) t"
    and cs: "cs = formattingCounters txt (flattenTags (pre @ t # post) 0) hs"
  shows "characterUnits txt cs n =
           (if mathAt cs n
            then (if continuesRun txt cs n then []
                  else [EquationTemplate (pendingEquation txt cs n @ [txt ! n])
                          (hasKind cs n MATH_DISPLAY)])
            else [EmptyTemplate])"
proof -
  have "renderFormattedCharacter (txt ! n) ([CharacterKey \<mapsto> Map.empty] ++ (cs ! n)) = EmptyTemplate"
    unfolding cs
    using reference_like_character_empty[OF _ flattenTags_top_level_mem n, of t "txt ! n" pre post hs]
      kind cov
    by (simp add: covers_shiftTag_zero tagName_shiftTag)
  then show ?thesis by (simp add: characterUnits_def)
qed

text \<open>
  Claim C10, as amended. A reference, footnote or cross-span-reference tag of the span
  whose metadata id resolves to no entry of the list of its kind, or whose list is absent,
  produces no insertion marker: the insertion map is the one built without the tag, and
  the insertion markers of the rendered output are exactly those of the other tags, at
  their offsets. The tag is still flattened and marked like any other tag, so it does
  change the units of the characters in its range: such a character is rendered as an
  empty template, unless it also carries a math kind, in which case it goes into the
  equation of its math run.
\<close>

theorem unresolved_tag_no_insertion:
  assumes sp: "span viz = Some sp"
    and tags: "innerTags sp = pre @ t # post"
    and cs: "cs = formattingCounters (text_span sp) (flattenTags (innerTags sp) 0)
                    (case highlights viz of None \<Rightarrow> [] | Some hs \<Rightarrow> hs)"
    and unres: "\<not> resolves viz t"
  shows "createInsertionsMap viz (innerTags sp) = createInsertionsMap viz (pre @ post)
       \<and> calculateRenderedContent viz =
           RendererElement
             (concat (map (\<lambda>i. anchoredAt viz (pre @ post) (int i)
                                @ characterUnits (text_span sp) cs i)
                        [0..<length (text_span sp)])
              @ anchoredAt viz (pre @ post) (int (length (text_span sp))))
       \<and> (tagName t \<in> {REFERENCE, SPAN_REFERENCE, FOOTNOTE}
            \<and> n < length (text_span sp) \<and> covers (int n) t
          \<longrightarrow> characterUnits (text_span sp) cs n
              = (if mathAt cs n
                 then (if continuesRun (text_span sp) cs n then []
                       else [EquationTemplate
                               (pendingEquation (text_span sp) cs n @ [text_span sp ! n])
                               (hasKind cs n MATH_DISPLAY)])
                 else [EmptyTemplate]))"
proof (intro conjI impI)
  from unres have none: "insertionTemplate viz t = None"
    by (rule unresolved_no_template)
  have ne: "flattenTags (innerTags sp) 0 \<noteq> []"
    using flattenTags_top_level_mem[of t pre post] tags by auto
  have anch: "\<And>i. anchoredAt viz (innerTags sp) i = anchoredAt viz (pre @ post) i"
    unfolding tags by (rule anchoredAt_skip[OF none])
  show "createInsertionsMap viz (innerTags sp) = createInsertionsMap viz (pre @ post)"
    unfolding tags by (rule createInsertionsMap_skip[OF none])
  show "calculateRenderedContent viz =
           RendererElement
             (concat (map (\<lambda>i. anchoredAt viz (pre @ post) (int i)
                                @ characterUnits (text_span sp) cs i)
                        [0..<length (text_span sp)])
              @ anchoredAt viz (pre @ post) (int (length (text_span sp))))"
    unfolding calculateRenderedContent_tagged[OF sp ne] cs anch ..
next
  assume h: "tagName t \<in> {REFERENCE, SPAN_REFERENCE, FOOTNOTE}
            \<and> n < length (text_span sp) \<and> covers (int n) t"
  have cs': "cs = formattingCounters (text_span sp) (flattenTags (pre @ t # post) 0)
                    (case highlights viz of None \<Rightarrow> [] | Some hs \<Rightarrow> hs)"
    using cs tags by simp
  from h show "characterUnits (text_span sp) cs n
              = (if mathAt cs n
                 then (if continuesRun (text_span sp) cs n then []
                       else [EquationTemplate
                               (pendingEquation (text_span sp) cs n @ [text_span sp ! n])
                               (hasKind cs n MATH_DISPLAY)])
                 else [EmptyTemplate])"
    by (intro reference_like_characterUnits[OF _ _ _ cs']) simp_all
qed


theorem unresolved_tag_no_insertion_witness:
  "\<not> resolves (vizWith ''abc'' [unresolvedTag]) unresolvedTag
   \<and> span (vizWith ''abc'' [unresolvedTag])
       = Some \<lparr>id_span = ''s1'', text_span = ''abc'', innerTags = [unresolvedTag]\<rparr>
   \<and> createInsertionsMap (vizWith ''abc'' [unresolvedTag]) [unresolvedTag] = Map.empty
   \<and> calculateRenderedContent (vizWith ''abc'' [unresolvedTag]) =
       RendererElement [EmptyTemplate, EmptyTemplate,
                        FormattedCharacter CHR ''c'' [CharacterKey \<mapsto> Map.empty]]
   \<and> \<not> resolves (vizWith ''ab'' [unresolvedTag, mathTag MATH 0 2]) unresolvedTag
   \<and> calculateRenderedContent (vizWith ''ab'' [unresolvedTag, mathTag MATH 0 2]) =
       RendererElement [EquationTemplate ''ab'' False]"
proof -
  let ?v1 = "vizWith ''abc'' [unresolvedTag]"
  let ?s1 = "\<lparr>id_span = ''s1'', text_span = ''abc'', innerTags = [unresolvedTag]\<rparr>"
  let ?v2 = "vizWith ''ab'' [unresolvedTag, mathTag MATH 0 2]"
  let ?s2 = "\<lparr>id_span = ''s1'', text_span = ''ab'',
              innerTags = [unresolvedTag, mathTag MATH 0 2]\<rparr>"
  have r1: "\<not> resolves ?v1 unresolvedTag"
    by (simp add: resolves_def vizWith_def unresolvedTag_def)
  have r2: "\<not> resolves ?v2 unresolvedTag"
    by (simp add: resolves_def vizWith_def unresolvedTag_def)
  have sp1: "span ?v1 = Some ?s1" by (simp add: vizWith_def)
  have sp2: "span ?v2 = Some ?s2" by (simp add: vizWith_def)
  have t1: "innerTags ?s1 = [] @ unresolvedTag # []" by simp
  have t2: "innerTags ?s2 = [] @ unresolvedTag # [mathTag MATH 0 2]" by simp
  note w1 = unresolved_tag_no_insertion[OF sp1 t1 refl r1, of 0]
  note w2 = unresolved_tag_no_insertion[OF sp2 t2 refl r2, of 0]
  from w1 have m1: "createInsertionsMap ?v1 [unresolvedTag] = Map.empty"
    by (simp add: createInsertionsMap_def)
  from w1 have "calculateRenderedContent ?v1 =
       RendererElement
         (concat (map (\<lambda>i. anchoredAt ?v1 ([] @ []) (int i)
                            @ characterUnits (text_span ?s1)
                                (formattingCounters (text_span ?s1) (flattenTags (innerTags ?s1) 0)
                                   (case highlights ?v1 of None \<Rightarrow> [] | Some hs \<Rightarrow> hs)) i)
                    [0..<length (text_span ?s1)])
          @ anchoredAt ?v1 ([] @ []) (int (length (text_span ?s1))))"
    by (rule conjunct1[OF conjunct2])
  then have c1: "calculateRenderedContent ?v1 =
       RendererElement [EmptyTemplate, EmptyTemplate,
                        FormattedCharacter CHR ''c'' [CharacterKey \<mapsto> Map.empty]]"
    by (simp add: anchoredAt_def vizWith_def unresolvedTag_def Let_def
          characterUnits_def mathAt_def hasKind_formattingCounters covers_def
          renderFormattedCharacter_def hasClass_def nth_formattingCounters pointCounter_def
          tagUpdate_def)
  from w2 have "calculateRenderedContent ?v2 =
       RendererElement
         (concat (map (\<lambda>i. anchoredAt ?v2 ([] @ [mathTag MATH 0 2]) (int i)
                            @ characterUnits (text_span ?s2)
                                (formattingCounters (text_span ?s2) (flattenTags (innerTags ?s2) 0)
                                   (case highlights ?v2 of None \<Rightarrow> [] | Some hs \<Rightarrow> hs)) i)
                    [0..<length (text_span ?s2)])
          @ anchoredAt ?v2 ([] @ [mathTag MATH 0 2]) (int (length (text_span ?s2))))"
    by (rule conjunct1[OF conjunct2])
  then have c2: "calculateRenderedContent ?v2 = RendererElement [EquationTemplate ''ab'' False]"
    by (simp add: anchoredAt_def insertionTemplate_def vizWith_def unresolvedTag_def mathTag_def
          Let_def characterUnits_def mathAt_def continuesRun_def hasKind_formattingCounters
          covers_def renderFormattedCharacter_def hasClass_def nth_formattingCounters
          pointCounter_def tagUpdate_def)
  from r1 sp1 m1 c1 r2 c2 show ?thesis by simp
qed

text \<open>
  Claim C10 as worded says that an unresolved tag contributes nothing to the output. An
  unresolved citation tag over the first two characters of \<open>abc\<close> adds no marker, but the
  two characters it covers are rendered as empty templates; without the tag the three
  characters are rendered plainly.
\<close>

theorem unresolved_tag_output_counterexample:
  "\<not> resolves (vizWith ''abc'' [unresolvedTag]) unresolvedTag
   \<and> calculateRenderedContent (vizWith ''abc'' [unresolvedTag]) =
       RendererElement [EmptyTemplate, EmptyTemplate,
                        FormattedCharacter CHR ''c'' [CharacterKey \<mapsto> Map.empty]]
   \<and> calculateRenderedContent (vizWith ''abc'' []) =
       RendererElement [PlainCharacter CHR ''a'', PlainCharacter CHR ''b'', PlainCharacter CHR ''c'']"
proof -
  have r: "\<not> resolves (vizWith ''abc'' [unresolvedTag]) unresolvedTag"
    by (simp add: resolves_def vizWith_def unresolvedTag_def)
  have ins: "createInsertionsMap (vizWith ''abc'' [unresolvedTag]) [unresolvedTag] = Map.empty"
    using createInsertionsMap_skip[OF unresolved_no_template[OF r], of "[]" "[]"]
    by (simp add: createInsertionsMap_def)
  have c1: "calculateRenderedContent (vizWith ''abc'' [unresolvedTag]) =
       RendererElement [EmptyTemplate, EmptyTemplate,
                        FormattedCharacter CHR ''c'' [CharacterKey \<mapsto> Map.empty]]"
    unfolding calculateRenderedContent_def
    apply (simp add: vizWith_def Let_def ins[unfolded vizWith_def])
    apply (simp add: unresolvedTag_def partsPerIndex_def partStep_def Let_def
             nth_formattingCounters pointCounter_def covers_def tagUpdate_def insertionsAt_def
             renderFormattedCharacter_def hasClass_def renderEquation_def)
    done
  have c0: "calculateRenderedContent (vizWith ''abc'' []) =
       RendererElement [PlainCharacter CHR ''a'', PlainCharacter CHR ''b'', PlainCharacter CHR ''c'']"
    by (simp add: calculateRenderedContent_def vizWith_def Let_def createInsertionsMap_def
          renderNonformattedCharacters_def)
  from r c1 c0 show ?thesis by simp
qed

text \<open>
  Claim C8, as amended. When the span has an insertion, the output is, index by index,
  the insertions anchored at the index, in the order of their tags, followed by the units
  emitted for the character of that index: its formatted character, or the equation of a
  math run at the last index of the run, or nothing at an earlier index of a run, whose
  equation comes later, after the insertions of the remaining indices of the run. The
  insertions anchored at the length of the text come after the units of the last
  character.
\<close>

theorem insertions_precede_character_units:
  assumes "span viz = Some sp"
    and "createInsertionsMap viz (innerTags sp) \<noteq> Map.empty"
  shows "calculateRenderedContent viz =
     RendererElement
       (concat (map (\<lambda>i. anchoredAt viz (innerTags sp) (int i)
                          @ characterUnits (text_span sp)
                              (formattingCounters (text_span sp) (flattenTags (innerTags sp) 0)
                                 (case highlights viz of None \<Rightarrow> [] | Some hs \<Rightarrow> hs)) i)
                  [0..<length (text_span sp)])
        @ anchoredAt viz (innerTags sp) (int (length (text_span sp))))"
  using assms by (rule calculateRenderedContent_slow)

theorem insertions_precede_character_units_witness:
  "span (footnoteViz ''xy'' [footnoteTag 0 ''f1'', footnoteTag 0 ''f2'', footnoteTag 2 ''f1''])
     = Some \<lparr>id_span = ''s1'', text_span = ''xy'',
              innerTags = [footnoteTag 0 ''f1'', footnoteTag 0 ''f2'', footnoteTag 2 ''f1'']\<rparr>
   \<and> createInsertionsMap
         (footnoteViz ''xy'' [footnoteTag 0 ''f1'', footnoteTag 0 ''f2'', footnoteTag 2 ''f1''])
         [footnoteTag 0 ''f1'', footnoteTag 0 ''f2'', footnoteTag 2 ''f1''] \<noteq> Map.empty
   \<and> calculateRenderedContent
         (footnoteViz ''xy'' [footnoteTag 0 ''f1'', footnoteTag 0 ''f2'', footnoteTag 2 ''f1''])
       = RendererElement
           [FootnoteTemplate 1 footnoteOne, FootnoteTemplate 2 footnoteTwo,
            FormattedCharacter CHR ''x'' [CharacterKey \<mapsto> Map.empty],
            FormattedCharacter CHR ''y'' [CharacterKey \<mapsto> Map.empty],
            FootnoteTemplate 1 footnoteOne]"
proof -
  let ?tags = "[footnoteTag 0 ''f1'', footnoteTag 0 ''f2'', footnoteTag 2 ''f1'']"
  let ?viz = "footnoteViz ''xy'' ?tags"
  let ?sp = "\<lparr>id_span = ''s1'', text_span = ''xy'', innerTags = ?tags\<rparr>"
  have h1: "span ?viz = Some ?sp" by (simp add: footnoteViz_def)
  have h2: "createInsertionsMap ?viz (innerTags ?sp) \<noteq> Map.empty"
    by (simp add: createInsertionsMap_def insertTag_def insertionTemplate_def footnoteViz_def
          footnoteTag_def truthyId_def footnoteOne_def footnoteTwo_def pushInsertion_def Let_def)
  have "calculateRenderedContent ?viz = RendererElement
         [FootnoteTemplate 1 footnoteOne, FootnoteTemplate 2 footnoteTwo,
          FormattedCharacter CHR ''x'' [CharacterKey \<mapsto> Map.empty],
          FormattedCharacter CHR ''y'' [CharacterKey \<mapsto> Map.empty],
          FootnoteTemplate 1 footnoteOne]"
    unfolding insertions_precede_character_units[OF h1 h2]
    by (simp add: anchoredAt_def insertionTemplate_def footnoteViz_def
          footnoteTag_def truthyId_def footnoteOne_def footnoteTwo_def Let_def
          characterUnits_def mathAt_def hasKind_formattingCounters covers_def
          renderFormattedCharacter_def hasClass_def nth_formattingCounters pointCounter_def)
  with h1 h2 show ?thesis by simp
qed

text \<open>
  Claim C8 as worded places every insertion immediately before the unit of its character.
  In a math run over \<open>xy\<close> with a footnote anchored at 0 and another at 1, the unit of
  both characters is the one equation, emitted at the end of the run: the footnote
  anchored at 0 is followed by the footnote anchored at 1, not by the unit of character 0.
\<close>

theorem insertion_in_math_run_counterexample:
  "calculateRenderedContent
       (footnoteViz ''xy'' [mathTag MATH 0 2, footnoteTag 0 ''f1'', footnoteTag 1 ''f2''])
     = RendererElement
         [FootnoteTemplate 1 footnoteOne, FootnoteTemplate 2 footnoteTwo,
          EquationTemplate ''xy'' False]"
proof -
  let ?tags = "[mathTag MATH 0 2, footnoteTag 0 ''f1'', footnoteTag 1 ''f2'']"
  let ?viz = "footnoteViz ''xy'' ?tags"
  let ?sp = "\<lparr>id_span = ''s1'', text_span = ''xy'', innerTags = ?tags\<rparr>"
  have h1: "span ?viz = Some ?sp" by (simp add: footnoteViz_def)
  have h2: "createInsertionsMap ?viz (innerTags ?sp) \<noteq> Map.empty"
    by (simp add: createInsertionsMap_def insertTag_def insertionTemplate_def footnoteViz_def
          footnoteTag_def mathTag_def truthyId_def footnoteOne_def footnoteTwo_def
          pushInsertion_def Let_def)
  show ?thesis
    unfolding calculateRenderedContent_slow[OF h1 h2]
    by (simp add: anchoredAt_def insertionTemplate_def footnoteViz_def
          footnoteTag_def mathTag_def truthyId_def footnoteOne_def footnoteTwo_def Let_def
          characterUnits_def mathAt_def continuesRun_def hasKind_formattingCounters covers_def
          renderFormattedCharacter_def hasClass_def nth_formattingCounters pointCounter_def)
qed

text \<open>
  Claim C5, as amended. Let no character carry both math kinds. For every maximal
  contiguous run of indices \<open>a..b\<close> that all carry the same math kind, the loop emits at
  the indices before \<open>b\<close> only their insertions and at \<open>b\<close>, after its insertions, one
  equation unit with the characters of the whole run, in display mode exactly for the
  display kind; no formatted character is emitted for the run.
\<close>

theorem math_run_single_equation:
  assumes "cs = formattingCounters txt tags hs"
    and "\<forall>i < length txt. \<not> (hasKind cs i MATH \<and> hasKind cs i MATH_DISPLAY)"
    and "k = MATH \<or> k = MATH_DISPLAY"
    and "a \<le> b" and "b < length txt"
    and "\<forall>i. a \<le> i \<and> i \<le> b \<longrightarrow> hasKind cs i k"
    and "a = 0 \<or> \<not> hasKind cs (a - 1) k"
    and "b + 1 = length txt \<or> \<not> hasKind cs (b + 1) k"
  shows "(\<forall>i. a \<le> i \<and> i < b \<longrightarrow> partsPerIndex txt cs ins ! i = insertionsAt ins (int i))
       \<and> partsPerIndex txt cs ins ! b =
           insertionsAt ins (int b)
           @ [EquationTemplate (map ((!) txt) [a..<Suc b]) (k = MATH_DISPLAY)]"
  using assms(2-) by (rule math_run_general)

theorem math_run_single_equation_witness:
  "hasKind (formattingCounters ''if E=m'' [mathTag MATH 3 6] []) 3 MATH
   \<and> \<not> hasKind (formattingCounters ''if E=m'' [mathTag MATH 3 6] []) 2 MATH
   \<and> partsPerIndex ''if E=m'' (formattingCounters ''if E=m'' [mathTag MATH 3 6] []) Map.empty ! 3 = []
   \<and> partsPerIndex ''if E=m'' (formattingCounters ''if E=m'' [mathTag MATH 3 6] []) Map.empty ! 4 = []
   \<and> partsPerIndex ''if E=m'' (formattingCounters ''if E=m'' [mathTag MATH 3 6] []) Map.empty ! 5
       = [EquationTemplate ''E=m'' False]"
proof -
  let ?txt = "''if E=m''"
  let ?cs = "formattingCounters ?txt [mathTag MATH 3 6] []"
  have len: "length ?txt = 6" by simp
  have kind: "\<And>i k. i < 6 \<Longrightarrow> hasKind ?cs i k \<longleftrightarrow> (k = MATH \<and> 3 \<le> i)"
    by (auto simp: hasKind_formattingCounters mathTag_def covers_def)
  have h2: "\<forall>i < length ?txt. \<not> (hasKind ?cs i MATH \<and> hasKind ?cs i MATH_DISPLAY)"
    by (simp add: kind)
  have h3: "MATH = MATH \<or> MATH = MATH_DISPLAY" by simp
  have h4: "(3::nat) \<le> 5" by simp
  have h5: "(5::nat) < length ?txt" by simp
  have h6: "\<forall>i. 3 \<le> i \<and> i \<le> 5 \<longrightarrow> hasKind ?cs i MATH" by (simp add: kind)
  have h7: "(3::nat) = 0 \<or> \<not> hasKind ?cs (3 - 1) MATH" by (simp add: kind)
  have h8: "(5::nat) + 1 = length ?txt \<or> \<not> hasKind ?cs (5 + 1) MATH" by simp
  note t = math_run_single_equation[OF refl h2 h3 h4 h5 h6 h7 h8, of Map.empty]
  have e: "map ((!) ?txt) [3..<Suc 5] = ''E=m''"
    by (simp add: upt_rec)
  from t have p3: "partsPerIndex ?txt ?cs Map.empty ! 3 = []"
    by (simp add: insertionsAt_def)
  from t have p4: "partsPerIndex ?txt ?cs Map.empty ! 4 = []"
    by (simp add: insertionsAt_def)
  from t e have p5: "partsPerIndex ?txt ?cs Map.empty ! 5 = [EquationTemplate ''E=m'' False]"
    by (simp add: insertionsAt_def)
  from p3 p4 p5 kind[of 3 MATH] kind[of 2 MATH] show ?thesis by simp
qed

text \<open>
  Claim C5 as worded covers characters that carry both math kinds. With \<open>math\<close> over
  \<open>ab\<close> and \<open>display-math\<close> over \<open>bc\<close>, the maximal display-math run is \<open>bc\<close>, but
  the loop follows the \<open>math\<close> kind at \<open>b\<close> and emits the equations \<open>ab\<close> and \<open>c\<close>:
  no equation unit holds the characters of the run \<open>bc\<close>.
\<close>

theorem math_run_overlap_counterexample:
  "\<not> hasKind (formattingCounters ''abc'' [mathTag MATH 0 2, mathTag MATH_DISPLAY 1 3] []) 0 MATH_DISPLAY
   \<and> hasKind (formattingCounters ''abc'' [mathTag MATH 0 2, mathTag MATH_DISPLAY 1 3] []) 1 MATH_DISPLAY
   \<and> hasKind (formattingCounters ''abc'' [mathTag MATH 0 2, mathTag MATH_DISPLAY 1 3] []) 2 MATH_DISPLAY
   \<and> calculateRenderedContent (vizWith ''abc'' [mathTag MATH 0 2, mathTag MATH_DISPLAY 1 3])
       = RendererElement [EquationTemplate ''ab'' True, EquationTemplate ''c'' True]"
  by (simp add: calculateRenderedContent_def vizWith_def Let_def createInsertionsMap_def insertTag_def
        insertionTemplate_def mathTag_def partsPerIndex_structure insertionsAt_def
        characterUnits_def mathAt_def continuesRun_def hasKind_formattingCounters covers_def
        renderFormattedCharacter_def hasClass_def nth_formattingCounters pointCounter_def)

section \<open>Properties of the document index\<close>

lemma applyPairs_append: "applyPairs (ps @ qs) m = applyPairs qs (applyPairs ps m)"
  by (simp add: applyPairs_def)

lemma applyPairs_notin: "k \<notin> fst ` set ps \<Longrightarrow> applyPairs ps m k = m k"
  unfolding applyPairs_def by (induction ps arbitrary: m) auto

lemma applyPairs_distinct:
  "distinct (map fst ps) \<Longrightarrow> (k, v) \<in> set ps \<Longrightarrow> applyPairs ps m k = Some v"
proof (induction ps arbitrary: m)
  case Nil
  then show ?case by simp
next
  case (Cons p ps)
  show ?case
  proof (cases "(k, v) \<in> set ps")
    case True
    with Cons show ?thesis by (simp add: applyPairs_def)
  next
    case False
    with Cons.prems have p: "p = (k, v)" by simp
    with Cons.prems have "k \<notin> fst ` set ps" by auto
    then have "applyPairs ps (m(k \<mapsto> v)) k = Some v" by (simp add: applyPairs_notin)
    with p show ?thesis by (simp add: applyPairs_def)
  qed
qed

lemma spanToSection_indexSpan_None [simp]:
  "spanToSection (indexSpan None sp ix) = spanToSection ix"
  by (simp add: indexSpan_def)

lemma spanToSection_fold_indexSpan_None [simp]:
  "spanToSection (fold (indexSpan None) sps ix) = spanToSection ix"
  by (induction sps arbitrary: ix) simp_all

lemma spanToSection_fold_indexSpan_Some:
  "spanToSection (fold (indexSpan (Some sec)) sps ix)
     = applyPairs (map (\<lambda>sp. (id_span sp, sec)) sps) (spanToSection ix)"
  by (induction sps arbitrary: ix) (simp_all add: applyPairs_def indexSpan_def)

lemma spanToSection_fold_indexContent_None [simp]:
  "spanToSection (fold (indexContent None) cs ix) = spanToSection ix"
  by (induction cs arbitrary: ix) (simp_all add: indexContent_def)

lemma spanToSection_indexContent_Some:
  "spanToSection (indexContent (Some sec) c ix)
     = applyPairs (map (\<lambda>sp. (id_span sp, sec)) (spansOfContent c)) (spanToSection ix)"
  by (simp add: indexContent_def spanToSection_fold_indexSpan_Some)

lemma spanToSection_fold_indexContent_Some:
  "spanToSection (fold (indexContent (Some sec)) cs ix)
     = applyPairs (map (\<lambda>sp. (id_span sp, sec)) (concat (map spansOfContent cs))) (spanToSection ix)"
proof (induction cs arbitrary: ix)
  case Nil
  show ?case by (simp add: applyPairs_def)
next
  case (Cons c cs)
  show ?case
    by (simp add: Cons.IH spanToSection_indexContent_Some applyPairs_append)
qed

lemma spanToSection_indexSection:
  "spanToSection (indexSection sec ix) = applyPairs (sectionPairs sec) (spanToSection ix)"
proof (induction sec arbitrary: ix)
  case (LumiSection i h cs subs)
  define reg where "reg = (\<lambda>sub ix'. indexSection sub
               (ix'\<lparr>sectionParent := (sectionParent ix')(id_section sub \<mapsto> LumiSection i h cs subs)\<rparr>))"
  have one: "\<And>y ix0. y \<in> set subs \<Longrightarrow>
      spanToSection (reg y ix0) = applyPairs (sectionPairs y) (spanToSection ix0)"
    unfolding reg_def using LumiSection.IH by simp
  have many: "\<And>ys ix0. set ys \<subseteq> set subs \<Longrightarrow>
      spanToSection (fold reg ys ix0)
        = applyPairs (concat (map sectionPairs ys)) (spanToSection ix0)"
  proof -
    fix ys ix0 assume "set ys \<subseteq> set subs"
    then show "spanToSection (fold reg ys ix0)
        = applyPairs (concat (map sectionPairs ys)) (spanToSection ix0)"
    proof (induction ys arbitrary: ix0)
      case Nil
      show ?case by (simp add: applyPairs_def)
    next
      case (Cons y ys)
      from Cons.prems have y: "y \<in> set subs" and ys: "set ys \<subseteq> set subs" by auto
      show ?case using Cons.IH[OF ys] one[OF y] by (simp add: applyPairs_append)
    qed
  qed
  have "indexSection (LumiSection i h cs subs) ix
          = fold reg subs (fold (indexContent (Some (LumiSection i h cs subs))) cs ix)"
    by (simp add: reg_def)
  then show ?case
    using many[OF subset_refl]
    by (simp add: spanToSection_fold_indexContent_Some applyPairs_append)
qed

lemma spanToSection_fold_indexSection:
  "spanToSection (fold indexSection secs ix)
     = applyPairs (concat (map sectionPairs secs)) (spanToSection ix)"
proof (induction secs arbitrary: ix)
  case Nil
  show ?case by (simp add: applyPairs_def)
next
  case (Cons s secs)
  show ?case by (simp add: Cons.IH spanToSection_indexSection applyPairs_append)
qed

lemma spanToSection_fold_references [simp]:
  "spanToSection (fold (\<lambda>r. indexSpan None (span_reference r)) rs ix) = spanToSection ix"
  by (induction rs arbitrary: ix) simp_all

lemma spanToSection_buildIndex:
  "spanToSection (buildIndex doc) = applyPairs (concat (map sectionPairs (sections doc))) Map.empty"
  by (simp add: buildIndex_def spanToSection_fold_indexSection emptyIndex_def)

lemma ownSpans_LumiSection [simp]:
  "ownSpans (LumiSection i h cs subs) = concat (map spansOfContent cs)"
  by (simp add: ownSpans_def)

lemma sectionPairs_fst:
  "map fst (sectionPairs sec) = map id_span (concat (map ownSpans (allSections sec)))"
proof (induction sec)
  case (LumiSection i h cs subs)
  have "map fst (concat (map sectionPairs subs))
      = map id_span (concat (map ownSpans (concat (map allSections subs))))"
    using LumiSection.IH by (induction subs) (simp_all add: map_concat)
  then show ?case by (simp add: comp_def)
qed

lemma sectionPairs_mem:
  "s \<in> set (allSections sec) \<Longrightarrow> sp \<in> set (ownSpans s) \<Longrightarrow> (id_span sp, s) \<in> set (sectionPairs sec)"
proof (induction sec)
  case (LumiSection i h cs subs)
  show ?case
  proof (cases "s = LumiSection i h cs subs")
    case True
    with LumiSection.prems(2) have "sp \<in> set (concat (map spansOfContent cs))" by simp
    then have "(id_span sp, s) \<in> (\<lambda>x. (id_span x, LumiSection i h cs subs)) ` set (concat (map spansOfContent cs))"
      using True by (rule_tac image_eqI) simp_all
    then show ?thesis by simp
  next
    case False
    with LumiSection.prems(1) obtain sub where sub: "sub \<in> set subs" "s \<in> set (allSections sub)"
      by auto
    from LumiSection.IH[OF sub(1) sub(2) LumiSection.prems(2)] sub(1) show ?thesis by auto
  qed
qed

lemma allPairs_fst:
  "map fst (concat (map sectionPairs secs)) = map id_span (concat (map ownSpans (concat (map allSections secs))))"
  by (induction secs) (simp_all add: sectionPairs_fst)


text \<open>
  Claim C1, as amended. For every document whose span ids are all different: for every
  section of the tree, top-level or nested at any depth, and every span in that section's
  own content, \<open>getSectionForSpan\<close> on the span's id returns that section, so a span in a
  subsection is owned by the subsection that holds it and a span directly in a top-level
  section by that section; for a span of the abstract and for an id of no span it returns
  \<open>None\<close>.
\<close>

theorem getSectionForSpan_nearest_section:
  assumes "distinct (map id_span (docSpans doc))"
  shows "(\<forall>top \<in> set (sections doc). \<forall>sec \<in> set (allSections top). \<forall>sp \<in> set (ownSpans sec).
            getSectionForSpan (buildIndex doc) (id_span sp) = Some sec)
       \<and> (\<forall>sp \<in> set (abstractSpans doc). getSectionForSpan (buildIndex doc) (id_span sp) = None)
       \<and> (sid \<notin> id_span ` set (docSpans doc) \<longrightarrow> getSectionForSpan (buildIndex doc) sid = None)"
proof -
  let ?ps = "concat (map sectionPairs (sections doc))"
  have fst: "map fst ?ps = map id_span (sectionSpans doc)"
    by (simp add: allPairs_fst sectionSpans_def)
  from assms have d: "distinct (map fst ?ps)"
    by (simp add: fst docSpans_def)
  have a: "\<forall>top \<in> set (sections doc). \<forall>sec \<in> set (allSections top). \<forall>sp \<in> set (ownSpans sec).
            getSectionForSpan (buildIndex doc) (id_span sp) = Some sec"
  proof (intro ballI)
    fix top sec sp
    assume "top \<in> set (sections doc)" "sec \<in> set (allSections top)" "sp \<in> set (ownSpans sec)"
    then have "(id_span sp, sec) \<in> set ?ps"
      using sectionPairs_mem by auto
    with d show "getSectionForSpan (buildIndex doc) (id_span sp) = Some sec"
      by (simp add: getSectionForSpan_def spanToSection_buildIndex applyPairs_distinct)
  qed
  have b: "\<forall>sp \<in> set (abstractSpans doc). getSectionForSpan (buildIndex doc) (id_span sp) = None"
  proof
    fix sp assume "sp \<in> set (abstractSpans doc)"
    with assms have "id_span sp \<notin> set (map id_span (sectionSpans doc))"
      by (auto simp: docSpans_def)
    then have "id_span sp \<notin> fst ` set ?ps"
      using fst by (metis set_map)
    then show "getSectionForSpan (buildIndex doc) (id_span sp) = None"
      by (simp add: getSectionForSpan_def spanToSection_buildIndex applyPairs_notin)
  qed
  have c: "sid \<notin> id_span ` set (docSpans doc) \<longrightarrow> getSectionForSpan (buildIndex doc) sid = None"
  proof
    assume "sid \<notin> id_span ` set (docSpans doc)"
    then have "sid \<notin> set (map id_span (sectionSpans doc))"
      by (auto simp: docSpans_def)
    then have "sid \<notin> fst ` set ?ps"
      using fst by (metis set_map)
    then show "getSectionForSpan (buildIndex doc) sid = None"
      by (simp add: getSectionForSpan_def spanToSection_buildIndex applyPairs_notin)
  qed
  from a b c show ?thesis by blast
qed

theorem getSectionForSpan_nearest_section_witness:
  "distinct (map id_span (docSpans docFixture))
   \<and> getSectionForSpan (buildIndex docFixture) ''span-2'' = Some subSectionFixture
   \<and> getSectionForSpan (buildIndex docFixture) ''span-1'' = Some topSectionFixture
   \<and> getSectionForSpan (buildIndex docFixture) ''span-3'' = Some topSectionFixture
   \<and> getSectionForSpan (buildIndex docFixture) ''abstract-span'' = None
   \<and> getSectionForSpan (buildIndex docFixture) ''non-existent-span'' = None"
proof -
  have ids: "map id_span (docSpans docFixture)
      = [''abstract-span'', ''span-1'', ''span-3'', ''span-2'']"
    by (simp add: docSpans_def abstractSpans_def sectionSpans_def docFixture_def
          topSectionFixture_def subSectionFixture_def createSection_def createSpan_def ownSpans_def)
  then have d: "distinct (map id_span (docSpans docFixture))" by simp
  note t = getSectionForSpan_nearest_section[OF d, of "''non-existent-span''"]
  have top: "topSectionFixture \<in> set (sections docFixture)" by (simp add: docFixture_def)
  have sub: "subSectionFixture \<in> set (allSections topSectionFixture)"
    and self: "topSectionFixture \<in> set (allSections topSectionFixture)"
    by (simp_all add: topSectionFixture_def subSectionFixture_def createSection_def)
  have s2: "createSpan ''span-2'' ''Nested'' \<in> set (ownSpans subSectionFixture)"
    by (simp add: subSectionFixture_def createSection_def)
  have s1: "createSpan ''span-1'' ''Top level'' \<in> set (ownSpans topSectionFixture)"
    and s3: "createSpan ''span-3'' ''In a list'' \<in> set (ownSpans topSectionFixture)"
    by (simp_all add: topSectionFixture_def createSection_def)
  have sa: "createSpan ''abstract-span'' ''Abstract'' \<in> set (abstractSpans docFixture)"
    by (simp add: abstractSpans_def docFixture_def)
  have "''non-existent-span'' \<notin> set (map id_span (docSpans docFixture))"
    unfolding ids by simp
  then have un: "''non-existent-span'' \<notin> id_span ` set (docSpans docFixture)"
    by simp
  from t top sub s2 have r2: "getSectionForSpan (buildIndex docFixture)
      (id_span (createSpan ''span-2'' ''Nested'')) = Some subSectionFixture" by blast
  from t top self s1 have r1: "getSectionForSpan (buildIndex docFixture)
      (id_span (createSpan ''span-1'' ''Top level'')) = Some topSectionFixture" by blast
  from t top self s3 have r3: "getSectionForSpan (buildIndex docFixture)
      (id_span (createSpan ''span-3'' ''In a list'')) = Some topSectionFixture" by blast
  from t sa have ra: "getSectionForSpan (buildIndex docFixture)
      (id_span (createSpan ''abstract-span'' ''Abstract'')) = None" by blast
  from t un have rn: "getSectionForSpan (buildIndex docFixture) ''non-existent-span'' = None"
    by blast
  from d r1 r2 r3 ra rn show ?thesis by (simp add: createSpan_def)
qed

text \<open>
  Claim C1 as worded gives a span of a subsection to the top-level section. On the fixture
  of the repository's test the span \<open>span-2\<close> lies in the subsection of the top-level
  section, and the lookup returns the subsection, as the test expects.
\<close>

theorem getSectionForSpan_subsection_counterexample:
  "topSectionFixture \<in> set (sections docFixture)
   \<and> subSectionFixture \<in> set (subSections topSectionFixture)
   \<and> createSpan ''span-2'' ''Nested'' \<in> set (ownSpans subSectionFixture)
   \<and> getSectionForSpan (buildIndex docFixture) ''span-2'' = Some subSectionFixture
   \<and> getSectionForSpan (buildIndex docFixture) ''span-2'' \<noteq> Some topSectionFixture"
  by (simp add: getSectionForSpan_def buildIndex_def docFixture_def topSectionFixture_def
        subSectionFixture_def createSection_def createSpan_def indexContent_def indexSpan_def
        emptyIndex_def)

end
